theory Spec2Isabelle
  imports Main
begin

section \<open>Bytes, text and exceptions\<close>

text \<open>
  A Python \<open>bytes\<close> value is a list of 8-bit characters. A Python \<open>str\<close> is
  represented by its UTF-8 encoding, so \<open>str.encode()\<close> is the identity and
  \<open>bytes.decode()\<close> is the identity on well-formed UTF-8 and raises otherwise.
\<close>

type_synonym bytes = string

definition NL :: char where
  "NL = CHR 0x0A"

definition BAR :: char where
  "BAR = CHR ''|''"

definition BUFFER_SIZE :: nat where
  "BUFFER_SIZE = 4096"

definition MAX_RETRIES :: nat where
  "MAX_RETRIES = 3"

text \<open>
  The exceptions the transfer code raises or lets through, each with the text that
  \<open>str(e)\<close> gives. \<open>socket.error\<close> is \<open>OSError\<close>, and \<open>ConnectionError\<close> is one of
  its subclasses, so \<open>except socket.error\<close> catches both.
\<close>

datatype exn =
    ConnectionError string
  | OSError string
  | ValueError string
  | UnicodeDecodeError string
  | ZeroDivisionError string
  | AttributeError string

fun str_exn :: "exn \<Rightarrow> string" where
  "str_exn (ConnectionError m) = m"
| "str_exn (OSError m) = m"
| "str_exn (ValueError m) = m"
| "str_exn (UnicodeDecodeError m) = m"
| "str_exn (ZeroDivisionError m) = m"
| "str_exn (AttributeError m) = m"

fun is_socket_error :: "exn \<Rightarrow> bool" where
  "is_socket_error (ConnectionError m) = True"
| "is_socket_error (OSError m) = True"
| "is_socket_error e = False"

section \<open>Library functions the transfer code calls\<close>

text \<open>
  \<open>str(n)\<close> for an integer: decimal digits, no leading zeros, a minus sign when
  negative.
\<close>

fun str_nat :: "nat \<Rightarrow> string" where
  "str_nat n =
     (if n < 10 then [char_of (48 + n)]
      else str_nat (n div 10) @ [char_of (48 + n mod 10)])"

declare str_nat.simps [simp del]

definition str_int :: "int \<Rightarrow> string" where
  "str_int i = (if i < 0 then CHR ''-'' # str_nat (nat (- i)) else str_nat (nat i))"

text \<open>
  \<open>int(s)\<close> for a string: surrounding white space is stripped, one sign is allowed, and
  the digits may be grouped by single underscores. \<open>None\<close> stands for the
  \<open>ValueError\<close> that \<open>int\<close> raises. Only ASCII digits and ASCII white space are
  recognised here; Python also accepts the decimal digits and spaces of other scripts,
  which no sender of this repository produces.
\<close>

definition is_digit :: "char \<Rightarrow> bool" where
  "is_digit c = (48 \<le> (of_char c :: nat) \<and> (of_char c :: nat) \<le> 57)"

definition is_space :: "char \<Rightarrow> bool" where
  "is_space c =
     (let b = (of_char c :: nat) in (9 \<le> b \<and> b \<le> 13) \<or> (28 \<le> b \<and> b \<le> 32))"

definition strip :: "string \<Rightarrow> string" where
  "strip s = rev (dropWhile is_space (rev (dropWhile is_space s)))"

fun digits_ok :: "bool \<Rightarrow> string \<Rightarrow> bool" where
  "digits_ok p [] = p"
| "digits_ok p (c # cs) =
     (if is_digit c then digits_ok True cs
      else c = CHR ''_'' \<and> p \<and> digits_ok False cs)"

definition digits_val :: "string \<Rightarrow> nat" where
  "digits_val ds = foldl (\<lambda>a c. 10 * a + ((of_char c :: nat) - 48)) 0 ds"

definition py_int :: "string \<Rightarrow> int option" where
  "py_int s =
     (let t = strip s;
          neg = (t \<noteq> [] \<and> hd t = CHR ''-'');
          d = (if t \<noteq> [] \<and> (hd t = CHR ''-'' \<or> hd t = CHR ''+'') then tl t else t)
      in if digits_ok False d
         then Some ((if neg then - 1 else 1) * int (digits_val (filter (\<lambda>c. c \<noteq> CHR ''_'') d)))
         else None)"

text \<open>\<open>s.split(sep)\<close> with a one-character separator: one more field than separators.\<close>

fun split_on :: "char \<Rightarrow> string \<Rightarrow> string list" where
  "split_on sep [] = [[]]"
| "split_on sep (c # cs) =
     (if c = sep then [] # split_on sep cs
      else (case split_on sep cs of
              w # ws \<Rightarrow> (c # w) # ws
            | [] \<Rightarrow> [[c]]))"

text \<open>
  \<open>bytes.decode()\<close>: the UTF-8 decoder accepts exactly the well-formed sequences (no
  overlong forms, no surrogates, nothing above U+10FFFF). The decoder is in a state
  \<open>(k, lo, hi)\<close>: \<open>k\<close> continuation bytes are still expected, the next of them within
  \<open>lo..hi\<close>. \<open>utf8_next\<close> is the state after one more byte, \<open>None\<close> when that byte is
  not allowed.
\<close>

definition utf8_next :: "nat \<Rightarrow> nat \<Rightarrow> nat \<Rightarrow> char \<Rightarrow> (nat \<times> nat \<times> nat) option" where
  "utf8_next k lo hi c =
     (let b = (of_char c :: nat) in
      if k = 0 then
        (if b < 0x80 then Some (0, 0x80, 0xBF)
         else if 0xC2 \<le> b \<and> b \<le> 0xDF then Some (1, 0x80, 0xBF)
         else if b = 0xE0 then Some (2, 0xA0, 0xBF)
         else if b = 0xED then Some (2, 0x80, 0x9F)
         else if 0xE1 \<le> b \<and> b \<le> 0xEF then Some (2, 0x80, 0xBF)
         else if b = 0xF0 then Some (3, 0x90, 0xBF)
         else if 0xF1 \<le> b \<and> b \<le> 0xF3 then Some (3, 0x80, 0xBF)
         else if b = 0xF4 then Some (3, 0x80, 0x8F)
         else None)
      else if lo \<le> b \<and> b \<le> hi then Some (k - 1, 0x80, 0xBF) else None)"

fun utf8_ok :: "nat \<Rightarrow> nat \<Rightarrow> nat \<Rightarrow> bytes \<Rightarrow> bool" where
  "utf8_ok k lo hi [] = (k = 0)"
| "utf8_ok k lo hi (c # cs) =
     (case utf8_next k lo hi c of
        None \<Rightarrow> False
      | Some (k', lo', hi') \<Rightarrow> utf8_ok k' lo' hi' cs)"

definition valid_utf8 :: "bytes \<Rightarrow> bool" where
  "valid_utf8 bs = utf8_ok 0 0x80 0xBF bs"

definition decode :: "bytes \<Rightarrow> exn + string" where
  "decode bs =
     (if valid_utf8 bs then Inr bs
      else Inl (UnicodeDecodeError ''utf-8 codec cannot decode bytes: invalid data''))"

text \<open>
  \<open>os.path.basename\<close> and the extension part of \<open>os.path.splitext\<close>, for \<open>/\<close> as the
  separator: the extension starts at the last dot of the last component, and dots that
  lead the component do not count.
\<close>

definition basename :: "string \<Rightarrow> string" where
  "basename p = rev (takeWhile (\<lambda>c. c \<noteq> CHR ''/'') (rev p))"

definition splitext_ext :: "string \<Rightarrow> string" where
  "splitext_ext p =
     (let b = dropWhile (\<lambda>c. c = CHR ''.'') (basename p)
      in if CHR ''.'' \<in> set b
         then CHR ''.'' # rev (takeWhile (\<lambda>c. c \<noteq> CHR ''.'') (rev b))
         else [])"

section \<open>Sockets and the client object\<close>

text \<open>
  What a connected socket will deliver: a list of deliveries. \<open>Data bs due\<close> is a run of
  bytes that arrives together; \<open>due\<close> is the outcome of the wall-clock test
  \<open>time.time() - last_progress_update > 0.1\<close> made after a read from it (the clock is an
  input of the model). \<open>Fail m\<close> makes the next \<open>recv\<close> raise \<open>socket.error\<close>. When the
  list is used up the peer has closed, and \<open>recv\<close> returns \<open>b''\<close>.
\<close>

datatype recv_ev = Data bytes bool | Fail string

record sock =
  sockname :: "string \<times> nat"
  inbound :: "recv_ev list"

fun recv :: "nat \<Rightarrow> recv_ev list \<Rightarrow> (exn + bytes \<times> bool) \<times> recv_ev list" where
  "recv n [] = (Inr ([], False), [])"
| "recv n (Fail m # s) = (Inl (OSError m), s)"
| "recv n (Data bs due # s) =
     (Inr (take n bs, due), if length bs \<le> n then s else Data (drop n bs) due # s)"

record download_record =
  timestamp :: string
  file_name :: string
  original_name :: string
  rec_size :: int
  path :: string
  status :: string

record client =
  socket :: "sock option"
  connected :: bool
  download_history :: "download_record list"

text \<open>
  \<open>socket.socket(...)\<close> followed by a failed \<open>connect\<close> leaves a fresh socket that was
  never connected: it has no peer, and a read from it raises.
\<close>

definition unconnected_sock :: sock where
  "unconnected_sock =
     \<lparr>sockname = (''0.0.0.0'', 0),
      inbound = [Fail ''[Errno 107] Transport endpoint is not connected'']\<rparr>"

text \<open>
  \<open>FileClient.connect\<close>, the same in both clients. \<open>dial host port\<close> is the network:
  the socket a successful connection gives, or \<open>None\<close> when dialling raises.
\<close>

definition connect ::
  "(string \<Rightarrow> nat \<Rightarrow> sock option) \<Rightarrow> client \<Rightarrow> string \<Rightarrow> nat \<Rightarrow> bool \<times> client" where
  "connect dial c host port =
     (if connected c then (False, c)
      else (case dial host port of
              Some s \<Rightarrow> (True, c\<lparr>socket := Some s, connected := True\<rparr>)
            | None \<Rightarrow> (False, c\<lparr>socket := Some unconnected_sock\<rparr>)))"

section \<open>Receiving the header line\<close>

fun stream_size :: "recv_ev list \<Rightarrow> nat" where
  "stream_size [] = 0"
| "stream_size (Fail m # s) = Suc (stream_size s)"
| "stream_size (Data bs due # s) = Suc (length bs + stream_size s)"

lemma recv_consumes:
  "recv n s = (Inr (chunk, due), s') \<Longrightarrow> chunk \<noteq> [] \<Longrightarrow> 0 < n \<Longrightarrow>
     stream_size s' < stream_size s"
  by (cases "(n, s)" rule: recv.cases) (auto split: if_splits)

text \<open>
  The header loop of \<open>file_client_new.FileClient.receive_file\<close> (lines 74 to 88): read
  up to \<open>BUFFER_SIZE\<close> bytes at a time until the buffer holds a newline. The result is
  \<open>Inl e\<close> when \<open>e\<close> leaves the loop as an exception, and otherwise the buffer together
  with \<open>last_exception\<close>, which the handler sets before its \<open>break\<close> on the last
  attempt.
\<close>

function recv_header ::
  "nat \<Rightarrow> bytes \<Rightarrow> exn option \<Rightarrow> recv_ev list \<Rightarrow> (exn + bytes \<times> exn option) \<times> recv_ev list" where
  "recv_header attempt header_data last_exc s =
     (if NL \<in> set header_data then (Inr (header_data, last_exc), s)
      else (case recv BUFFER_SIZE s of
              (Inl e, s') \<Rightarrow>
                (if attempt < MAX_RETRIES - 1 then (Inl e, s')
                 else (Inr (header_data, Some e), s'))
            | (Inr (chunk, due), s') \<Rightarrow>
                (if chunk = [] then
                   (if attempt < MAX_RETRIES - 1
                    then (Inl (ConnectionError ''Connection closed before receiving file header''), s')
                    else (Inr (header_data,
                               Some (ConnectionError ''Connection closed before receiving file header'')), s'))
                 else if length (header_data @ chunk) > 1024000
                 then (Inl (ValueError ''File header too large, possibly invalid data''), s')
                 else recv_header attempt (header_data @ chunk) last_exc s')))"
  by pat_completeness auto
termination
  by (relation "measure (\<lambda>(attempt, header_data, last_exc, s). stream_size s)")
     (auto simp: BUFFER_SIZE_def dest: recv_consumes [OF sym])

declare recv_header.simps [simp del]

text \<open>The header loop of \<open>flet_client.FileClient.receive_file\<close> (lines 63 to 68).\<close>

function flet_recv_header :: "bytes \<Rightarrow> recv_ev list \<Rightarrow> (exn + bytes) \<times> recv_ev list" where
  "flet_recv_header header_data s =
     (if NL \<in> set header_data then (Inr header_data, s)
      else (case recv BUFFER_SIZE s of
              (Inl e, s') \<Rightarrow> (Inl e, s')
            | (Inr (chunk, due), s') \<Rightarrow>
                (if chunk = []
                 then (Inl (ConnectionError ''Connection closed before receiving file header''), s')
                 else flet_recv_header (header_data @ chunk) s')))"
  by pat_completeness auto
termination
  by (relation "measure (\<lambda>(header_data, s). stream_size s)")
     (auto simp: BUFFER_SIZE_def dest: recv_consumes [OF sym])

declare flet_recv_header.simps [simp del]

text \<open>
  \<open>header_end = header_data.find(b'\n')\<close>, then the slices \<open>header_data[:header_end]\<close>
  and \<open>header_data[header_end + 1:]\<close>. When there is no newline \<open>find\<close> gives \<open>-1\<close>, so
  the first slice drops the last byte and the second is the whole buffer.
\<close>

definition split_header :: "bytes \<Rightarrow> bytes \<times> bytes" where
  "split_header header_data =
     (if NL \<in> set header_data
      then (takeWhile (\<lambda>c. c \<noteq> NL) header_data, tl (dropWhile (\<lambda>c. c \<noteq> NL) header_data))
      else (butlast header_data, header_data))"

text \<open>
  Parsing in \<open>file_client_new\<close> (lines 95 to 99): three fields, the second an integer;
  every \<open>ValueError\<close> is replaced by one with a fixed text.
\<close>

definition parse_header :: "string \<Rightarrow> exn + string \<times> int \<times> string" where
  "parse_header header =
     (case split_on BAR header of
        [name, sz, extension] \<Rightarrow>
          (case py_int sz of
             Some n \<Rightarrow> Inr (name, n, extension)
           | None \<Rightarrow> Inl (ValueError ''Invalid file header format''))
      | _ \<Rightarrow> Inl (ValueError ''Invalid file header format''))"

text \<open>
  Parsing in \<open>flet_client\<close> (lines 75 and 76): two fields, the second an integer; the
  \<open>ValueError\<close> of the unpacking or of \<open>int\<close> is raised as it is.
\<close>

definition flet_parse_header :: "string \<Rightarrow> exn + string \<times> int" where
  "flet_parse_header header =
     (case split_on BAR header of
        [name, sz] \<Rightarrow>
          (case py_int sz of
             Some n \<Rightarrow> Inr (name, n)
           | None \<Rightarrow> Inl (ValueError (''invalid literal for int() with base 10: '' @ sz)))
      | [x] \<Rightarrow> Inl (ValueError ''not enough values to unpack (expected 2, got 1)'')
      | _ \<Rightarrow> Inl (ValueError ''too many values to unpack (expected 2)''))"

text \<open>
  From the buffer to the header fields and the bytes that came after the newline:
  lines 90 to 99 of \<open>file_client_new\<close>, lines 70 to 76 of \<open>flet_client\<close>.
\<close>

definition decode_header :: "bytes \<Rightarrow> exn + string \<times> int \<times> string \<times> bytes" where
  "decode_header header_data =
     (let header_bytes = fst (split_header header_data);
          remaining_data = snd (split_header header_data)
      in case decode header_bytes of
           Inl e \<Rightarrow> Inl e
         | Inr header \<Rightarrow>
             (case parse_header header of
                Inl e \<Rightarrow> Inl e
              | Inr (name, file_size, file_extension) \<Rightarrow>
                  Inr (name, file_size, file_extension, remaining_data)))"

definition flet_decode_header :: "bytes \<Rightarrow> exn + string \<times> int \<times> bytes" where
  "flet_decode_header header_data =
     (let header_bytes = fst (split_header header_data);
          remaining_data = snd (split_header header_data)
      in case decode header_bytes of
           Inl e \<Rightarrow> Inl e
         | Inr header \<Rightarrow>
             (case flet_parse_header header of
                Inl e \<Rightarrow> Inl e
              | Inr (name, file_size) \<Rightarrow> Inr (name, file_size, remaining_data)))"

section \<open>Receiving the payload\<close>

text \<open>
  What the progress callback is called with first: the literal \<open>100\<close>, or the value of
  \<open>int((received_bytes / file_size) * 100)\<close>. That value is computed in double
  precision; the model keeps the two operands and does not evaluate it.
\<close>

datatype progress = Hundred | Percent nat int

type_synonym callback_call = "progress \<times> nat \<times> int"

text \<open>
  The variables of the payload loop: \<open>content\<close> is what the open destination file
  holds, \<open>stream\<close> what the socket will still deliver, \<open>calls\<close> the calls of the
  progress callback so far.
\<close>

record pstate =
  received_bytes :: nat
  content :: bytes
  stream :: "recv_ev list"
  last_exc :: "exn option"
  calls :: "callback_call list"

datatype step = Continue pstate | Break pstate | Propagate exn pstate

text \<open>
  The handler \<open>except socket.error as e\<close> of the payload loop in \<open>file_client_new\<close>
  (lines 138 to 145): before the last attempt it stores the error and breaks, on the
  last attempt it raises it again.
\<close>

definition on_socket_error :: "nat \<Rightarrow> exn \<Rightarrow> pstate \<Rightarrow> step" where
  "on_socket_error attempt e st =
     (if attempt < MAX_RETRIES - 1 then Break (st\<lparr>last_exc := Some e\<rparr>) else Propagate e st)"

text \<open>
  One pass through the body of \<open>while received_bytes < file_size\<close> in
  \<open>file_client_new\<close> (lines 122 to 145). \<open>cb\<close> says whether a progress callback was
  given.
\<close>

definition payload_step :: "bool \<Rightarrow> nat \<Rightarrow> int \<Rightarrow> pstate \<Rightarrow> step" where
  "payload_step cb attempt file_size st =
     (case recv (nat (min (int BUFFER_SIZE) (file_size - int (received_bytes st)))) (stream st) of
        (Inl e, s') \<Rightarrow> on_socket_error attempt e (st\<lparr>stream := s'\<rparr>)
      | (Inr (chunk, due), s') \<Rightarrow>
          (if chunk = [] then
             (if attempt < MAX_RETRIES - 1
              then on_socket_error attempt (ConnectionError ''Connection lost during transfer'')
                     (st\<lparr>stream := s'\<rparr>)
              else Break (st\<lparr>stream := s'\<rparr>))
           else
             (let received = received_bytes st + length chunk;
                  st1 = st\<lparr>stream := s', content := content st @ chunk, received_bytes := received\<rparr>
              in if cb \<and> due then
                   (if file_size = 0 then Propagate (ZeroDivisionError ''division by zero'') st1
                    else Continue (st1\<lparr>calls := calls st1 @ [(Percent received file_size, received, file_size)]\<rparr>))
                 else Continue st1)))"

lemma payload_step_grows:
  "payload_step cb attempt file_size st = Continue st' \<Longrightarrow>
     received_bytes st < received_bytes st'"
  by (auto simp: payload_step_def on_socket_error_def Let_def
           split: prod.splits sum.splits if_splits)

function recv_payload :: "bool \<Rightarrow> nat \<Rightarrow> int \<Rightarrow> pstate \<Rightarrow> exn option \<times> pstate" where
  "recv_payload cb attempt file_size st =
     (if int (received_bytes st) < file_size then
        (case payload_step cb attempt file_size st of
           Continue st' \<Rightarrow> recv_payload cb attempt file_size st'
         | Break st' \<Rightarrow> (None, st')
         | Propagate e st' \<Rightarrow> (Some e, st'))
      else (None, st))"
  by pat_completeness auto
termination
  by (relation "measure (\<lambda>(cb, attempt, file_size, st). nat (file_size - int (received_bytes st)))")
     (auto dest: payload_step_grows)

declare recv_payload.simps [simp del]

text \<open>
  One pass through the body of \<open>while received_bytes < file_size\<close> in \<open>flet_client\<close>
  (lines 90 to 100): no handler, an empty read breaks, an error of \<open>recv\<close> propagates.
\<close>

definition flet_payload_step :: "bool \<Rightarrow> int \<Rightarrow> pstate \<Rightarrow> step" where
  "flet_payload_step cb file_size st =
     (case recv (nat (min (int BUFFER_SIZE) (file_size - int (received_bytes st)))) (stream st) of
        (Inl e, s') \<Rightarrow> Propagate e (st\<lparr>stream := s'\<rparr>)
      | (Inr (chunk, due), s') \<Rightarrow>
          (if chunk = [] then Break (st\<lparr>stream := s'\<rparr>)
           else
             (let received = received_bytes st + length chunk;
                  st1 = st\<lparr>stream := s', content := content st @ chunk, received_bytes := received\<rparr>
              in if cb \<and> due then
                   (if file_size = 0 then Propagate (ZeroDivisionError ''division by zero'') st1
                    else Continue (st1\<lparr>calls := calls st1 @ [(Percent received file_size, received, file_size)]\<rparr>))
                 else Continue st1)))"

lemma flet_payload_step_grows:
  "flet_payload_step cb file_size st = Continue st' \<Longrightarrow>
     received_bytes st < received_bytes st'"
  by (auto simp: flet_payload_step_def Let_def split: prod.splits sum.splits if_splits)

function flet_recv_payload :: "bool \<Rightarrow> int \<Rightarrow> pstate \<Rightarrow> exn option \<times> pstate" where
  "flet_recv_payload cb file_size st =
     (if int (received_bytes st) < file_size then
        (case flet_payload_step cb file_size st of
           Continue st' \<Rightarrow> flet_recv_payload cb file_size st'
         | Break st' \<Rightarrow> (None, st')
         | Propagate e st' \<Rightarrow> (Some e, st'))
      else (None, st))"
  by pat_completeness auto
termination
  by (relation "measure (\<lambda>(cb, file_size, st). nat (file_size - int (received_bytes st)))")
     (auto dest: flet_payload_step_grows)

declare flet_recv_payload.simps [simp del]

section \<open>The receiver with retries: \<open>file_client_new.FileClient.receive_file\<close>\<close>

text \<open>
  Everything a call of \<open>receive_file\<close> can change: the client object, the files on disk
  (a map from paths to contents), the local variables \<open>save_path\<close> and
  \<open>last_exception\<close>, which live across the attempts, and the calls of the progress
  callback. Opening a file and creating directories are taken to succeed.
\<close>

record rstate =
  cl :: client
  fs :: "string \<Rightarrow> bytes option"
  save_path :: string
  last_exception :: "exn option"
  cb_calls :: "callback_call list"

datatype outcome = Returned bool | Raised exn | Next

definition set_inbound :: "client \<Rightarrow> sock \<Rightarrow> recv_ev list \<Rightarrow> client" where
  "set_inbound c sk s = c\<lparr>socket := Some (sk\<lparr>inbound := s\<rparr>)\<rparr>"

definition append_history :: "download_record \<Rightarrow> rstate \<Rightarrow> rstate" where
  "append_history r st = st\<lparr>cl := (cl st)\<lparr>download_history := download_history (cl st) @ [r]\<rparr>\<rparr>"

definition complete_record :: "string \<Rightarrow> string \<Rightarrow> string \<Rightarrow> int \<Rightarrow> download_record" where
  "complete_record now sp name file_size =
     \<lparr>timestamp = now, file_name = basename sp, original_name = name,
      rec_size = file_size, path = sp, status = ''Complete''\<rparr>"

definition failed_record :: "string \<Rightarrow> string \<Rightarrow> exn \<Rightarrow> download_record" where
  "failed_record now sp e =
     \<lparr>timestamp = now,
      file_name = (if sp \<noteq> [] then basename sp else ''unknown''),
      original_name = ''unknown'',
      rec_size = 0,
      path = (if sp \<noteq> [] then sp else ''unknown''),
      status = ''Failed: '' @ str_exn e\<rparr>"

text \<open>
  Lines 102 and 103: the extension of the header is appended to a path that has none.
\<close>

definition destination :: "string \<Rightarrow> string \<Rightarrow> string" where
  "destination sp file_extension = (if splitext_ext sp = [] then sp @ file_extension else sp)"

text \<open>
  Lines 113 to 118: what the destination file holds when the payload loop starts. A
  retry that finds the file opens it in mode \<open>ab\<close> and keeps what is there; otherwise
  mode \<open>wb\<close> empties it. The bytes left over from the header are written in mode \<open>wb\<close>
  only.
\<close>

definition initial_content :: "nat \<Rightarrow> (string \<Rightarrow> bytes option) \<Rightarrow> string \<Rightarrow> bytes \<Rightarrow> bytes" where
  "initial_content attempt files sp remaining_data =
     (let append = (attempt > 0 \<and> files sp \<noteq> None);
          opened = (case files sp of
                      Some old \<Rightarrow> if append then old else []
                    | None \<Rightarrow> [])
      in if remaining_data \<noteq> [] \<and> \<not> append then opened @ remaining_data else opened)"

text \<open>
  Lines 73 to 164, the part of an attempt after the reconnect: header, destination path,
  file mode, payload loop, and the record of a complete transfer. \<open>Next\<close> means that
  the end of the \<open>try\<close> block was reached without a \<open>return\<close>.
\<close>

definition receive_body :: "string \<Rightarrow> bool \<Rightarrow> nat \<Rightarrow> sock \<Rightarrow> rstate \<Rightarrow> outcome \<times> rstate" where
  "receive_body now cb attempt sk st =
     (case recv_header attempt [] (last_exception st) (inbound sk) of
        (Inl e, s1) \<Rightarrow> (Raised e, st\<lparr>cl := set_inbound (cl st) sk s1\<rparr>)
      | (Inr (header_data, le), s1) \<Rightarrow>
          (let st1 = st\<lparr>cl := set_inbound (cl st) sk s1, last_exception := le\<rparr>
           in case decode_header header_data of
                Inl e \<Rightarrow> (Raised e, st1)
              | Inr (name, file_size, file_extension, remaining_data) \<Rightarrow>
                  (let sp = destination (save_path st1) file_extension;
                       res = recv_payload cb attempt file_size
                               \<lparr>received_bytes = length remaining_data,
                                content = initial_content attempt (fs st1) sp remaining_data,
                                stream = s1, last_exc = le, calls = cb_calls st1\<rparr>;
                       p = snd res;
                       st2 = st1\<lparr>cl := set_inbound (cl st) sk (stream p),
                                 fs := (fs st1)(sp \<mapsto> content p),
                                 save_path := sp,
                                 last_exception := last_exc p,
                                 cb_calls := calls p\<rparr>
                   in case fst res of
                        Some e \<Rightarrow> (Raised e, st2)
                      | None \<Rightarrow>
                          if file_size \<le> int (received_bytes p)
                          then (Returned True,
                                append_history (complete_record now sp name file_size)
                                  (st2\<lparr>cb_calls := cb_calls st2 @
                                          (if cb then [(Hundred, received_bytes p, file_size)]
                                           else [])\<rparr>))
                          else (Next, st2))))"

text \<open>
  Lines 67 to 164, the \<open>try\<close> block of one attempt. A retry first calls \<open>connect\<close> with
  the address of the present socket and goes on to the next attempt when that returns
  \<open>False\<close>. A client without a socket object raises \<open>AttributeError\<close> at the first use.
\<close>

definition receive_attempt ::
  "(string \<Rightarrow> nat \<Rightarrow> sock option) \<Rightarrow> string \<Rightarrow> bool \<Rightarrow> nat \<Rightarrow> rstate \<Rightarrow> outcome \<times> rstate" where
  "receive_attempt dial now cb attempt st =
     (case socket (cl st) of
        None \<Rightarrow> (Raised (AttributeError ''NoneType object has no attribute''), st)
      | Some sk \<Rightarrow>
          (if attempt > 0 then
             (case connect dial (cl st) (fst (sockname sk)) (snd (sockname sk)) of
                (False, c') \<Rightarrow> (Next, st\<lparr>cl := c'\<rparr>)
              | (True, c') \<Rightarrow>
                  (case socket c' of
                     None \<Rightarrow> (Raised (AttributeError ''NoneType object has no attribute''), st\<lparr>cl := c'\<rparr>)
                   | Some sk' \<Rightarrow> receive_body now cb attempt sk' (st\<lparr>cl := c'\<rparr>)))
           else receive_body now cb attempt sk st))"

text \<open>
  One pass of \<open>for attempt in range(MAX_RETRIES)\<close>: the \<open>try\<close> block and its handler
  \<open>except Exception as e\<close> (lines 166 to 173).
\<close>

definition attempt_pass ::
  "(string \<Rightarrow> nat \<Rightarrow> sock option) \<Rightarrow> string \<Rightarrow> bool \<Rightarrow> nat \<Rightarrow> rstate \<Rightarrow> outcome \<times> rstate" where
  "attempt_pass dial now cb attempt st =
     (case receive_attempt dial now cb attempt st of
        (Raised e, st') \<Rightarrow>
          (if attempt < MAX_RETRIES - 1 then (Next, st'\<lparr>last_exception := Some e\<rparr>)
           else (Raised e, st'\<lparr>last_exception := Some e\<rparr>))
      | (Returned b, st') \<Rightarrow> (Returned b, st')
      | (Next, st') \<Rightarrow> (Next, st'))"

fun attempts ::
  "(string \<Rightarrow> nat \<Rightarrow> sock option) \<Rightarrow> string \<Rightarrow> bool \<Rightarrow> nat list \<Rightarrow> rstate \<Rightarrow> outcome \<times> rstate" where
  "attempts dial now cb [] st = (Next, st)"
| "attempts dial now cb (attempt # rest) st =
     (case attempt_pass dial now cb attempt st of
        (Next, st') \<Rightarrow> attempts dial now cb rest st'
      | (Returned b, st') \<Rightarrow> (Returned b, st')
      | (Raised e, st') \<Rightarrow> (Raised e, st'))"

text \<open>
  The whole call: \<open>Inl e\<close> when it raises \<open>e\<close>, \<open>Inr b\<close> when it returns \<open>b\<close>, together
  with the state it leaves. \<open>now\<close> is the time stamp the record gets.
\<close>

definition receive_file ::
  "(string \<Rightarrow> nat \<Rightarrow> sock option) \<Rightarrow> string \<Rightarrow> bool \<Rightarrow> client \<Rightarrow> (string \<Rightarrow> bytes option) \<Rightarrow> string
     \<Rightarrow> (exn + bool) \<times> rstate" where
  "receive_file dial now cb c files sp =
     (let st0 = \<lparr>cl = c, fs = files, save_path = sp, last_exception = None, cb_calls = []\<rparr>
      in if \<not> connected c then (Inl (ConnectionError ''Not connected to server''), st0)
         else (case attempts dial now cb [0..<MAX_RETRIES] st0 of
                 (Returned b, st) \<Rightarrow> (Inr b, st)
               | (Raised e, st) \<Rightarrow> (Inl e, st)
               | (Next, st) \<Rightarrow>
                   (case last_exception st of
                      Some e \<Rightarrow> (Inl e, append_history (failed_record now (save_path st) e) st)
                    | None \<Rightarrow> (Inr False, st))))"

section \<open>The receiver without retries: \<open>flet_client.FileClient.receive_file\<close>\<close>

definition flet_status :: "nat \<Rightarrow> int \<Rightarrow> string" where
  "flet_status received file_size =
     (if file_size \<le> int received then ''Complete''
      else ''Incomplete ('' @ str_nat received @ ''/'' @ str_int file_size @ '' bytes)'')"

text \<open>Lines 62 to 118, the \<open>try\<close> block.\<close>

definition flet_receive_try :: "string \<Rightarrow> bool \<Rightarrow> sock \<Rightarrow> rstate \<Rightarrow> (exn + bool) \<times> rstate" where
  "flet_receive_try now cb sk st =
     (case flet_recv_header [] (inbound sk) of
        (Inl e, s1) \<Rightarrow> (Inl e, st\<lparr>cl := set_inbound (cl st) sk s1\<rparr>)
      | (Inr header_data, s1) \<Rightarrow>
          (let st1 = st\<lparr>cl := set_inbound (cl st) sk s1\<rparr>
           in case flet_decode_header header_data of
                Inl e \<Rightarrow> (Inl e, st1)
              | Inr (name, file_size, remaining_data) \<Rightarrow>
                  (let written = (if remaining_data \<noteq> [] then remaining_data else []);
                       res = flet_recv_payload cb file_size
                               \<lparr>received_bytes = length remaining_data, content = written,
                                stream = s1, last_exc = None, calls = cb_calls st1\<rparr>;
                       p = snd res;
                       st2 = st1\<lparr>cl := set_inbound (cl st) sk (stream p),
                                 fs := (fs st1)(save_path st1 \<mapsto> content p),
                                 cb_calls := calls p\<rparr>
                   in case fst res of
                        Some e \<Rightarrow> (Inl e, st2)
                      | None \<Rightarrow>
                          (Inr True,
                           append_history
                             \<lparr>timestamp = now, file_name = basename (save_path st2),
                              original_name = name, rec_size = file_size,
                              path = save_path st2,
                              status = flet_status (received_bytes p) file_size\<rparr>
                             (st2\<lparr>cb_calls := cb_calls st2 @
                                     (if cb then [(Hundred, received_bytes p, file_size)]
                                      else [])\<rparr>)))))"

text \<open>The whole call, with the handler \<open>except Exception as e\<close> (lines 120 to 133).\<close>

definition flet_receive_file ::
  "string \<Rightarrow> bool \<Rightarrow> client \<Rightarrow> (string \<Rightarrow> bytes option) \<Rightarrow> string \<Rightarrow> (exn + bool) \<times> rstate" where
  "flet_receive_file now cb c files sp =
     (let st0 = \<lparr>cl = c, fs = files, save_path = sp, last_exception = None, cb_calls = []\<rparr>
      in if \<not> connected c then (Inl (ConnectionError ''Not connected to server''), st0)
         else (case (case socket c of
                       None \<Rightarrow> (Inl (AttributeError ''NoneType object has no attribute''), st0)
                     | Some sk \<Rightarrow> flet_receive_try now cb sk st0) of
                 (Inl e, st) \<Rightarrow> (Inl e, append_history (failed_record now (save_path st) e) st)
               | (Inr b, st) \<Rightarrow> (Inr b, st)))"

section \<open>The senders\<close>

text \<open>
  The sending side of a socket: \<open>wire\<close> is everything transmitted so far, and the plan
  says how the transport answers the next calls. \<open>Accept k\<close> takes up to \<open>k\<close> bytes,
  \<open>SendFail m\<close> raises \<open>socket.error\<close>; when the plan is used up everything is taken.
  \<open>send\<close> makes one such step and \<open>sendall\<close> repeats it until the data is out.
\<close>

datatype send_ev = Accept nat | SendFail string

fun send :: "bytes \<Rightarrow> send_ev list \<Rightarrow> exn option \<times> bytes \<times> send_ev list" where
  "send data [] = (None, data, [])"
| "send data (SendFail m # plan) = (Some (OSError m), [], plan)"
| "send data (Accept k # plan) = (None, take k data, plan)"

fun sendall :: "bytes \<Rightarrow> send_ev list \<Rightarrow> exn option \<times> bytes \<times> send_ev list" where
  "sendall data [] = (None, data, [])"
| "sendall data (SendFail m # plan) = (Some (OSError m), [], plan)"
| "sendall data (Accept k # plan) =
     (if length data \<le> k then (None, data, plan)
      else (case sendall (drop k data) plan of
              (r, sent, plan') \<Rightarrow> (r, take k data @ sent, plan')))"

record transfer_record =
  t_timestamp :: string
  t_file :: string
  t_size :: int
  t_client :: string
  t_status :: string

text \<open>
  The variables of a sending loop: the part of the source file not yet read, the bytes
  counted as sent, the socket, and the values the progress callback was called with.
\<close>

record sstate =
  unread :: bytes
  sent_bytes :: nat
  wire :: bytes
  plan :: "send_ev list"
  progress_calls :: "progress list"

text \<open>The header both senders write: \<open>f"{file_name}|{file_size}"\<close> and a newline.\<close>

definition header_line :: "string \<Rightarrow> int \<Rightarrow> bytes" where
  "header_line name file_size = name @ [BAR] @ str_int file_size @ [NL]"

text \<open>
  The loop of \<open>file_server_new.FileServer.send_file\<close> (lines 105 to 115): read up to
  \<open>BUFFER_SIZE\<close> bytes, stop at the end of the file, \<open>sendall\<close>, count, report.
\<close>

function send_chunks :: "bool \<Rightarrow> int \<Rightarrow> sstate \<Rightarrow> exn option \<times> sstate" where
  "send_chunks cb file_size st =
     (let data = take BUFFER_SIZE (unread st) in
      if data = [] then (None, st)
      else (case sendall data (plan st) of
              (Some e, out, plan') \<Rightarrow>
                (Some e, st\<lparr>unread := drop BUFFER_SIZE (unread st), wire := wire st @ out, plan := plan'\<rparr>)
            | (None, out, plan') \<Rightarrow>
                (let sent = sent_bytes st + length data;
                     st1 = st\<lparr>unread := drop BUFFER_SIZE (unread st), wire := wire st @ out,
                              plan := plan', sent_bytes := sent\<rparr>
                 in if cb then
                      (if file_size = 0 then (Some (ZeroDivisionError ''division by zero''), st1)
                       else send_chunks cb file_size
                              (st1\<lparr>progress_calls := progress_calls st1 @ [Percent sent file_size]\<rparr>))
                    else send_chunks cb file_size st1)))"
  by pat_completeness auto
termination
  by (relation "measure (\<lambda>(cb, file_size, st). length (unread st))")
     (auto simp: BUFFER_SIZE_def)

declare send_chunks.simps [simp del]

text \<open>
  \<open>send_file\<close> of \<open>file_server_new\<close>: the result and the record appended to
  \<open>transfer_history\<close>, with the state of the socket. \<open>files file_path\<close> is the source
  file, \<open>None\<close> when it does not exist, and \<open>peer\<close> what \<open>getpeername\<close> gives.
\<close>

definition send_file ::
  "string \<Rightarrow> bool \<Rightarrow> string \<Rightarrow> (string \<Rightarrow> bytes option) \<Rightarrow> string \<Rightarrow> send_ev list
     \<Rightarrow> bool \<times> transfer_record \<times> sstate" where
  "send_file now cb peer files file_path plan0 =
     (let st0 = \<lparr>unread = [], sent_bytes = 0, wire = [], plan = plan0, progress_calls = []\<rparr>;
          failed = (\<lambda>e st. (False,
                     \<lparr>t_timestamp = now, t_file = basename file_path,
                      t_size = (case files file_path of Some d \<Rightarrow> int (length d) | None \<Rightarrow> 0),
                      t_client = peer, t_status = ''Failed: '' @ str_exn e\<rparr>, st))
      in case files file_path of
           None \<Rightarrow> failed (OSError ''No such file or directory'') st0
         | Some d \<Rightarrow>
             (let file_size = int (length d);
                  name = basename file_path
              in case sendall (header_line name file_size) plan0 of
                   (Some e, out, plan1) \<Rightarrow> failed e (st0\<lparr>wire := out, plan := plan1\<rparr>)
                 | (None, out, plan1) \<Rightarrow>
                     (case send_chunks cb file_size (st0\<lparr>unread := d, wire := out, plan := plan1\<rparr>) of
                        (Some e, st) \<Rightarrow> failed e st
                      | (None, st) \<Rightarrow>
                          (True,
                           \<lparr>t_timestamp = now, t_file = name, t_size = file_size,
                            t_client = peer, t_status = ''Complete''\<rparr>, st))))"

text \<open>
  The loop of \<open>flet_server.FileServer._send_file\<close> (lines 114 to 119), which calls
  \<open>send\<close> once for each chunk and counts the length of the chunk, and has no progress
  callback.
\<close>

function flet_send_chunks :: "int \<Rightarrow> sstate \<Rightarrow> exn option \<times> sstate" where
  "flet_send_chunks file_size st =
     (if int (sent_bytes st) < file_size then
        (let chunk = take BUFFER_SIZE (unread st) in
         if chunk = [] then (None, st)
         else (case send chunk (plan st) of
                 (Some e, out, plan') \<Rightarrow>
                   (Some e, st\<lparr>unread := drop BUFFER_SIZE (unread st), wire := wire st @ out, plan := plan'\<rparr>)
               | (None, out, plan') \<Rightarrow>
                   flet_send_chunks file_size
                     (st\<lparr>unread := drop BUFFER_SIZE (unread st), wire := wire st @ out,
                         plan := plan', sent_bytes := sent_bytes st + length chunk\<rparr>)))
      else (None, st))"
  by pat_completeness auto
termination
  by (relation "measure (\<lambda>(file_size, st). length (unread st))")
     (auto simp: BUFFER_SIZE_def)

declare flet_send_chunks.simps [simp del]

definition flet_send_status :: "nat \<Rightarrow> int \<Rightarrow> string" where
  "flet_send_status sent file_size =
     (if file_size \<le> int sent then ''Complete''
      else ''Incomplete ('' @ str_nat sent @ ''/'' @ str_int file_size @ '' bytes)'')"

definition flet_send_file ::
  "string \<Rightarrow> string \<Rightarrow> (string \<Rightarrow> bytes option) \<Rightarrow> string \<Rightarrow> send_ev list
     \<Rightarrow> bool \<times> transfer_record \<times> sstate" where
  "flet_send_file now client_info files file_path plan0 =
     (let st0 = \<lparr>unread = [], sent_bytes = 0, wire = [], plan = plan0, progress_calls = []\<rparr>;
          failed = (\<lambda>e st. (False,
                     \<lparr>t_timestamp = now,
                      t_file = (if file_path \<noteq> [] then basename file_path else ''unknown''),
                      t_size = 0, t_client = client_info,
                      t_status = ''Failed: '' @ str_exn e\<rparr>, st))
      in case files file_path of
           None \<Rightarrow> failed (OSError ''No such file or directory'') st0
         | Some d \<Rightarrow>
             (let file_size = int (length d);
                  name = basename file_path
              in case send (header_line name file_size) plan0 of
                   (Some e, out, plan1) \<Rightarrow> failed e (st0\<lparr>wire := out, plan := plan1\<rparr>)
                 | (None, out, plan1) \<Rightarrow>
                     (case flet_send_chunks file_size (st0\<lparr>unread := d, wire := out, plan := plan1\<rparr>) of
                        (Some e, st) \<Rightarrow> failed e st
                      | (None, st) \<Rightarrow>
                          (True,
                           \<lparr>t_timestamp = now, t_file = name, t_size = file_size,
                            t_client = client_info,
                            t_status = flet_send_status (sent_bytes st) file_size\<rparr>, st))))"

section \<open>Streams and plans that the statements speak about\<close>

text \<open>
  \<open>no_fail s\<close>: no read from \<open>s\<close> raises. \<open>clean s\<close>: moreover every delivery
  holds at least one byte, so that an empty read only happens when the peer has closed.
  \<open>data_bytes s\<close>: the bytes \<open>s\<close> delivers before a read raises.
\<close>

fun no_fail :: "recv_ev list \<Rightarrow> bool" where
  "no_fail [] = True"
| "no_fail (Fail m # s) = False"
| "no_fail (Data bs due # s) = no_fail s"

fun clean :: "recv_ev list \<Rightarrow> bool" where
  "clean [] = True"
| "clean (Fail m # s) = False"
| "clean (Data bs due # s) = (bs \<noteq> [] \<and> clean s)"

fun data_bytes :: "recv_ev list \<Rightarrow> bytes" where
  "data_bytes [] = []"
| "data_bytes (Fail m # s) = []"
| "data_bytes (Data bs due # s) = bs @ data_bytes s"

text \<open>
  \<open>no_send_fail plan\<close>: no write raises. \<open>accepts n plan\<close>: moreover every single
  \<open>send\<close> takes at least \<open>n\<close> bytes.
\<close>

fun no_send_fail :: "send_ev list \<Rightarrow> bool" where
  "no_send_fail [] = True"
| "no_send_fail (SendFail m # evs) = False"
| "no_send_fail (Accept k # evs) = no_send_fail evs"

fun accepts :: "nat \<Rightarrow> send_ev list \<Rightarrow> bool" where
  "accepts n [] = True"
| "accepts n (SendFail m # evs) = False"
| "accepts n (Accept k # evs) = (n \<le> k \<and> accepts n evs)"

text \<open>
  The byte counts after each chunk when \<open>left\<close> bytes are read in chunks of at most
  \<open>BUFFER_SIZE\<close>, starting from \<open>sent\<close>.
\<close>

function progress_marks :: "nat \<Rightarrow> nat \<Rightarrow> nat list" where
  "progress_marks sent left =
     (if left = 0 then []
      else (sent + min BUFFER_SIZE left) #
           progress_marks (sent + min BUFFER_SIZE left) (left - min BUFFER_SIZE left))"
  by pat_completeness auto
termination
  by (relation "measure (\<lambda>(sent, left). left)") (auto simp: BUFFER_SIZE_def)

declare progress_marks.simps [simp del]

section \<open>Facts about the library functions and the header line\<close>

lemma char_of_digit: "d < 10 \<Longrightarrow> (of_char (char_of (48 + d) :: char) :: nat) = 48 + d"
  by simp

lemma str_nat_digits: "c \<in> set (str_nat n) \<Longrightarrow> is_digit c"
proof (induction n arbitrary: c rule: str_nat.induct)
  case (1 n)
  show ?case
  proof (cases "n < 10")
    case True
    with "1.prems" show ?thesis
      by (simp add: str_nat.simps [of n] is_digit_def)
  next
    case False
    have "n mod 10 < 10" by simp
    then have "is_digit (char_of (48 + n mod 10))"
      unfolding is_digit_def by (simp only: char_of_digit) simp
    with False "1.prems" "1.IH" show ?thesis
      by (auto simp: str_nat.simps [of n])
  qed
qed

lemma str_nat_nonempty: "str_nat n \<noteq> []"
  by (subst str_nat.simps) simp

lemma digits_val_snoc: "digits_val (ds @ [c]) = 10 * digits_val ds + ((of_char c :: nat) - 48)"
  by (simp add: digits_val_def)

lemma digits_val_str_nat: "digits_val (str_nat n) = n"
proof (induction n rule: str_nat.induct)
  case (1 n)
  show ?case
  proof (cases "n < 10")
    case True
    then show ?thesis
      by (simp add: str_nat.simps [of n] digits_val_def)
  next
    case False
    have "n mod 10 < 10" by simp
    then have "(of_char (char_of (48 + n mod 10) :: char) :: nat) = 48 + n mod 10"
      by (rule char_of_digit)
    with False "1.IH" show ?thesis
      by (simp add: str_nat.simps [of n] digits_val_snoc)
  qed
qed

lemma digits_ok_all: "ds \<noteq> [] \<Longrightarrow> \<forall>c\<in>set ds. is_digit c \<Longrightarrow> digits_ok p ds"
proof (induction ds arbitrary: p)
  case Nil
  then show ?case by simp
next
  case (Cons c cs)
  then show ?case by (cases cs) auto
qed

lemma digit_not_space: "is_digit c \<Longrightarrow> \<not> is_space c"
  by (auto simp: is_digit_def is_space_def Let_def)

lemma strip_digits: "ds \<noteq> [] \<Longrightarrow> \<forall>c\<in>set ds. is_digit c \<Longrightarrow> strip ds = ds"
proof -
  assume ne: "ds \<noteq> []" and dg: "\<forall>c\<in>set ds. is_digit c"
  from ne dg have "\<not> is_space (hd ds)" by (simp add: digit_not_space)
  with ne have a: "dropWhile is_space ds = ds" by (cases ds) auto
  from ne dg have "\<not> is_space (hd (rev ds))"
    by (simp add: digit_not_space hd_rev)
  with ne have b: "dropWhile is_space (rev ds) = rev ds" by (cases "rev ds") auto
  show ?thesis by (simp add: strip_def a b)
qed

lemma digit_chars: "is_digit c \<Longrightarrow> c \<noteq> CHR ''_'' \<and> c \<noteq> CHR ''-'' \<and> c \<noteq> CHR ''+'' \<and> c \<noteq> BAR \<and> c \<noteq> NL \<and> (of_char c :: nat) < 128"
  by (auto simp: is_digit_def BAR_def NL_def)

lemma py_int_digits:
  assumes "ds \<noteq> []" "\<forall>c\<in>set ds. is_digit c"
  shows "py_int ds = Some (int (digits_val ds))"
proof -
  from assms have hd: "is_digit (hd ds)" by simp
  have f: "filter (\<lambda>c. c \<noteq> CHR ''_'') ds = ds"
    using assms(2) by (auto simp: filter_id_conv dest: digit_chars)
  from hd have "hd ds \<noteq> CHR ''-''" "hd ds \<noteq> CHR ''+''" by (auto dest: digit_chars)
  then show ?thesis
    using assms by (simp add: py_int_def strip_digits Let_def f digits_ok_all)
qed

lemma py_int_str_nat: "py_int (str_nat n) = Some (int n)"
  using py_int_digits [of "str_nat n"] by (simp add: str_nat_nonempty str_nat_digits digits_val_str_nat)

lemma py_int_str_int: "0 \<le> i \<Longrightarrow> py_int (str_int i) = Some i"
  by (simp add: str_int_def py_int_str_nat)

lemma split_on_no_sep: "sep \<notin> set xs \<Longrightarrow> split_on sep xs = [xs]"
  by (induction xs) auto

lemma split_on_first: "sep \<notin> set xs \<Longrightarrow> split_on sep (xs @ sep # ys) = xs # split_on sep ys"
  by (induction xs) auto

lemma utf8_next_zero: "utf8_next 0 lo hi c = utf8_next 0 lo' hi' c"
  by (simp add: utf8_next_def)

lemma utf8_ok_zero: "utf8_ok 0 lo hi bs = utf8_ok 0 lo' hi' bs"
  by (cases bs) (simp_all add: utf8_next_zero [of lo hi _ lo' hi'])

lemma utf8_ok_append:
  "utf8_ok k lo hi xs \<Longrightarrow> utf8_ok k lo hi (xs @ ys) = utf8_ok 0 0x80 0xBF ys"
proof (induction xs arbitrary: k lo hi)
  case Nil
  then show ?case using utf8_ok_zero [of lo hi ys] by simp
next
  case (Cons c cs)
  then show ?case
    by (cases "utf8_next k lo hi c") auto
qed

lemma valid_utf8_append: "valid_utf8 xs \<Longrightarrow> valid_utf8 (xs @ ys) = valid_utf8 ys"
  by (simp add: valid_utf8_def utf8_ok_append)

lemma utf8_next_ascii: "(of_char c :: nat) < 128 \<Longrightarrow> utf8_next 0 lo hi c = Some (0, 0x80, 0xBF)"
  by (simp add: utf8_next_def)

lemma valid_utf8_ascii: "\<forall>c\<in>set xs. (of_char c :: nat) < 128 \<Longrightarrow> valid_utf8 xs"
  unfolding valid_utf8_def by (induction xs) (simp_all add: utf8_next_ascii)

lemma split_header_line:
  "NL \<notin> set h \<Longrightarrow> split_header (h @ NL # rest) = (h, rest)"
proof -
  assume h: "NL \<notin> set h"
  then have a: "takeWhile (\<lambda>c. c \<noteq> NL) (h @ NL # rest) = h"
    by (induction h) auto
  from h have b: "dropWhile (\<lambda>c. c \<noteq> NL) (h @ NL # rest) = NL # rest"
    by (induction h) auto
  show ?thesis using a b by (simp add: split_header_def)
qed


lemma digits_no_NL: "\<forall>c\<in>set ds. is_digit c \<Longrightarrow> NL \<notin> set ds"
  using digit_chars by blast

lemma digits_no_BAR: "\<forall>c\<in>set ds. is_digit c \<Longrightarrow> BAR \<notin> set ds"
  using digit_chars by blast

lemma digits_ascii: "\<forall>c\<in>set ds. is_digit c \<Longrightarrow> \<forall>c\<in>set ds. (of_char c :: nat) < 128"
  using digit_chars by blast

lemma BAR_not_NL: "BAR \<noteq> NL" "NL \<noteq> BAR"
  by (simp_all add: BAR_def NL_def)

lemma BAR_ascii: "(of_char BAR :: nat) < 128"
  by (simp add: BAR_def)

lemma str_int_digits: "0 \<le> n \<Longrightarrow> \<forall>c\<in>set (str_int n). is_digit c"
  by (simp add: str_int_def str_nat_digits)

lemma header_fields:
  assumes "valid_utf8 name" "BAR \<notin> set name" "NL \<notin> set name" "0 \<le> n"
  shows "split_header (header_line name n @ rest) = (name @ BAR # str_int n, rest)"
    and "valid_utf8 (name @ BAR # str_int n)"
    and "split_on BAR (name @ BAR # str_int n) = [name, str_int n]"
proof -
  have dig: "\<forall>c\<in>set (str_int n). is_digit c" using assms(4) by (rule str_int_digits)
  have nl: "NL \<notin> set (name @ BAR # str_int n)"
    using assms(3) digits_no_NL [OF dig] by (simp add: BAR_not_NL)
  show "split_header (header_line name n @ rest) = (name @ BAR # str_int n, rest)"
    using split_header_line [OF nl, of rest] by (simp add: header_line_def)
  have "\<forall>c\<in>set (BAR # str_int n). (of_char c :: nat) < 128"
    using digits_ascii [OF dig] by (simp add: BAR_ascii)
  then have "valid_utf8 (BAR # str_int n)" by (rule valid_utf8_ascii)
  then show "valid_utf8 (name @ BAR # str_int n)"
    using assms(1) by (simp add: valid_utf8_append)
  show "split_on BAR (name @ BAR # str_int n) = [name, str_int n]"
    using assms(2) digits_no_BAR [OF dig] by (simp add: split_on_first split_on_no_sep)
qed

lemma three_fields_reject:
  assumes "valid_utf8 name" "BAR \<notin> set name" "NL \<notin> set name" "0 \<le> n"
  shows "decode_header (header_line name n @ rest) = Inl (ValueError ''Invalid file header format'')"
  using header_fields [OF assms]
  by (simp add: decode_header_def decode_def parse_header_def)

section \<open>Facts about the payload loops\<close>

lemma recv_length: "recv n s = (Inr (chunk, due), s') \<Longrightarrow> length chunk \<le> n"
  by (cases "(n, s)" rule: recv.cases) (auto split: if_splits)

lemma payload_step_Continue:
  assumes "payload_step cb attempt file_size st = Continue st'"
  shows "\<exists>chunk. chunk \<noteq> [] \<and>
           length chunk \<le> nat (min (int BUFFER_SIZE) (file_size - int (received_bytes st))) \<and>
           content st' = content st @ chunk \<and>
           received_bytes st' = received_bytes st + length chunk \<and>
           last_exc st' = last_exc st"
proof -
  obtain r s' where rv: "recv (nat (min (int BUFFER_SIZE) (file_size - int (received_bytes st)))) (stream st) = (r, s')"
    by (cases "recv (nat (min (int BUFFER_SIZE) (file_size - int (received_bytes st)))) (stream st)")
  show ?thesis
  proof (cases r)
    case (Inl e)
    with assms rv show ?thesis
      by (simp add: payload_step_def on_socket_error_def split: if_splits)
  next
    case (Inr cd)
    obtain chunk due where cd: "cd = (chunk, due)" by (cases cd)
    have len: "length chunk \<le> nat (min (int BUFFER_SIZE) (file_size - int (received_bytes st)))"
      using rv Inr cd recv_length by simp
    from assms rv Inr cd have ne: "chunk \<noteq> []"
      by (auto simp: payload_step_def on_socket_error_def split: if_splits)
    from assms rv Inr cd ne have
      "content st' = content st @ chunk \<and> received_bytes st' = received_bytes st + length chunk
         \<and> last_exc st' = last_exc st"
      by (auto simp: payload_step_def Let_def split: if_splits)
    with ne len show ?thesis by blast
  qed
qed

lemma flet_payload_step_Continue:
  assumes "flet_payload_step cb file_size st = Continue st'"
  shows "\<exists>chunk. chunk \<noteq> [] \<and>
           length chunk \<le> nat (min (int BUFFER_SIZE) (file_size - int (received_bytes st))) \<and>
           content st' = content st @ chunk \<and>
           received_bytes st' = received_bytes st + length chunk \<and>
           last_exc st' = last_exc st"
proof -
  obtain r s' where rv: "recv (nat (min (int BUFFER_SIZE) (file_size - int (received_bytes st)))) (stream st) = (r, s')"
    by (cases "recv (nat (min (int BUFFER_SIZE) (file_size - int (received_bytes st)))) (stream st)")
  show ?thesis
  proof (cases r)
    case (Inl e)
    with assms rv show ?thesis
      by (simp add: flet_payload_step_def)
  next
    case (Inr cd)
    obtain chunk due where cd: "cd = (chunk, due)" by (cases cd)
    have len: "length chunk \<le> nat (min (int BUFFER_SIZE) (file_size - int (received_bytes st)))"
      using rv Inr cd recv_length by simp
    from assms rv Inr cd have ne: "chunk \<noteq> []"
      by (auto simp: flet_payload_step_def split: if_splits)
    from assms rv Inr cd ne have
      "content st' = content st @ chunk \<and> received_bytes st' = received_bytes st + length chunk
         \<and> last_exc st' = last_exc st"
      by (auto simp: flet_payload_step_def Let_def split: if_splits)
    with ne len show ?thesis by blast
  qed
qed

lemma step_bound:
  assumes "int r < file_size" "length chunk \<le> nat (min (int BUFFER_SIZE) (file_size - int r))"
  shows "int (r + length chunk) \<le> file_size"
  using assms by linarith

lemma payload_step_Break:
  "payload_step cb attempt file_size st = Break st' \<Longrightarrow>
     received_bytes st' = received_bytes st \<and> content st' = content st \<and> calls st' = calls st"
  by (auto simp: payload_step_def on_socket_error_def Let_def split: prod.splits sum.splits if_splits)

lemma payload_step_Propagate:
  "payload_step cb attempt file_size st = Propagate e st' \<Longrightarrow>
     int (received_bytes st) < file_size \<Longrightarrow> int (received_bytes st) \<le> int (received_bytes st') \<and> int (received_bytes st') \<le> file_size"
  using recv_length [of "nat (min (int BUFFER_SIZE) (file_size - int (received_bytes st)))" "stream st"]
  by (auto simp: payload_step_def on_socket_error_def Let_def split: prod.splits sum.splits if_splits)

lemma recv_payload_bound:
  "int (received_bytes st) \<le> file_size \<Longrightarrow>
     int (received_bytes (snd (recv_payload cb attempt file_size st))) \<le> file_size"
proof (induction cb attempt file_size st rule: recv_payload.induct)
  case (1 cb attempt file_size st)
  show ?case
  proof (cases "int (received_bytes st) < file_size")
    case False
    with "1.prems" show ?thesis by (simp add: recv_payload.simps [of cb attempt file_size st])
  next
    case True
    show ?thesis
    proof (cases "payload_step cb attempt file_size st")
      case (Continue st')
      from payload_step_Continue [OF Continue] True have "int (received_bytes st') \<le> file_size"
        using step_bound by auto
      with "1.IH" [OF True Continue] True Continue show ?thesis
        by (simp add: recv_payload.simps [of cb attempt file_size st])
    next
      case (Break st')
      with True "1.prems" payload_step_Break [OF Break] show ?thesis
        by (simp add: recv_payload.simps [of cb attempt file_size st])
    next
      case (Propagate e st')
      with True payload_step_Propagate [OF Propagate True] show ?thesis
        by (simp add: recv_payload.simps [of cb attempt file_size st])
    qed
  qed
qed

lemma recv_no_fail:
  "no_fail s \<Longrightarrow> \<exists>chunk due s'. recv n s = (Inr (chunk, due), s') \<and> no_fail s' \<and>
       data_bytes s = chunk @ data_bytes s'"
  by (cases "(n, s)" rule: recv.cases) auto

lemma recv_clean:
  "clean s \<Longrightarrow> s \<noteq> [] \<Longrightarrow> 0 < n \<Longrightarrow>
     \<exists>chunk due s'. recv n s = (Inr (chunk, due), s') \<and> clean s' \<and> chunk \<noteq> [] \<and>
       length chunk \<le> n \<and> data_bytes s = chunk @ data_bytes s'"
  by (cases "(n, s)" rule: recv.cases) auto

lemma clean_no_fail: "clean s \<Longrightarrow> no_fail s"
  by (induction s rule: clean.induct) auto

lemma recv_error: "recv n s = (Inl e, s') \<Longrightarrow> \<exists>m. e = OSError m"
  by (cases "(n, s)" rule: recv.cases) auto

lemma flet_payload_step_Break:
  "flet_payload_step cb file_size st = Break st' \<Longrightarrow>
     received_bytes st' = received_bytes st \<and> content st' = content st \<and> calls st' = calls st
       \<and> last_exc st' = last_exc st"
  by (auto simp: flet_payload_step_def Let_def split: prod.splits sum.splits if_splits)

lemma flet_payload_step_Propagate:
  "flet_payload_step cb file_size st = Propagate e st' \<Longrightarrow>
     int (received_bytes st) < file_size \<Longrightarrow>
     int (received_bytes st) \<le> int (received_bytes st') \<and> int (received_bytes st') \<le> file_size
       \<and> (\<exists>m. e = OSError m)"
  using recv_length [of "nat (min (int BUFFER_SIZE) (file_size - int (received_bytes st)))" "stream st"]
    recv_error [of "nat (min (int BUFFER_SIZE) (file_size - int (received_bytes st)))" "stream st"]
  by (auto simp: flet_payload_step_def Let_def split: prod.splits sum.splits if_splits)

lemma flet_recv_payload_bound:
  "int (received_bytes st) \<le> file_size \<Longrightarrow>
     int (received_bytes (snd (flet_recv_payload cb file_size st))) \<le> file_size"
proof (induction cb file_size st rule: flet_recv_payload.induct)
  case (1 cb file_size st)
  show ?case
  proof (cases "int (received_bytes st) < file_size")
    case False
    with "1.prems" show ?thesis by (simp add: flet_recv_payload.simps [of cb file_size st])
  next
    case True
    show ?thesis
    proof (cases "flet_payload_step cb file_size st")
      case (Continue st')
      from flet_payload_step_Continue [OF Continue] True have "int (received_bytes st') \<le> file_size"
        using step_bound by auto
      with "1.IH" [OF True Continue] True Continue show ?thesis
        by (simp add: flet_recv_payload.simps [of cb file_size st])
    next
      case (Break st')
      with True "1.prems" flet_payload_step_Break [OF Break] show ?thesis
        by (simp add: flet_recv_payload.simps [of cb file_size st])
    next
      case (Propagate e st')
      with True flet_payload_step_Propagate [OF Propagate True] show ?thesis
        by (simp add: flet_recv_payload.simps [of cb file_size st])
    qed
  qed
qed

text \<open>What the loops write is what they count.\<close>

lemma payload_step_content:
  "payload_step cb attempt file_size st = r \<Longrightarrow> r = Break st' \<or> r = Propagate e st' \<or> r = Continue st' \<Longrightarrow>
     \<exists>chunk. content st' = content st @ chunk \<and> received_bytes st' = received_bytes st + length chunk"
  by (auto simp: payload_step_def on_socket_error_def Let_def split: prod.splits sum.splits if_splits)

lemma flet_payload_step_content:
  "flet_payload_step cb file_size st = r \<Longrightarrow> r = Break st' \<or> r = Propagate e st' \<or> r = Continue st' \<Longrightarrow>
     \<exists>chunk. content st' = content st @ chunk \<and> received_bytes st' = received_bytes st + length chunk"
  by (auto simp: flet_payload_step_def Let_def split: prod.splits sum.splits if_splits)

lemma recv_payload_content:
  "\<exists>rest. content (snd (recv_payload cb attempt file_size st)) = content st @ rest \<and>
          received_bytes (snd (recv_payload cb attempt file_size st)) = received_bytes st + length rest"
proof (induction cb attempt file_size st rule: recv_payload.induct)
  case (1 cb attempt file_size st)
  show ?case
  proof (cases "int (received_bytes st) < file_size")
    case False
    then show ?thesis by (simp add: recv_payload.simps [of cb attempt file_size st])
  next
    case True
    show ?thesis
    proof (cases "payload_step cb attempt file_size st")
      case (Continue st')
      from payload_step_content [OF Continue, of st'] obtain chunk where
        c: "content st' = content st @ chunk" "received_bytes st' = received_bytes st + length chunk"
        by auto
      from "1.IH" [OF True Continue] obtain rest where
        r: "content (snd (recv_payload cb attempt file_size st')) = content st' @ rest"
           "received_bytes (snd (recv_payload cb attempt file_size st')) = received_bytes st' + length rest"
        by auto
      have "content (snd (recv_payload cb attempt file_size st)) = content st @ (chunk @ rest) \<and>
            received_bytes (snd (recv_payload cb attempt file_size st)) = received_bytes st + length (chunk @ rest)"
        using True Continue c r by (simp add: recv_payload.simps [of cb attempt file_size st])
      then show ?thesis by blast
    next
      case (Break st')
      with True payload_step_content [OF Break, of st'] show ?thesis
        by (simp add: recv_payload.simps [of cb attempt file_size st])
    next
      case (Propagate e st')
      with True payload_step_content [OF Propagate, of st' e] show ?thesis
        by (simp add: recv_payload.simps [of cb attempt file_size st])
    qed
  qed
qed

lemma flet_recv_payload_content:
  "\<exists>rest. content (snd (flet_recv_payload cb file_size st)) = content st @ rest \<and>
          received_bytes (snd (flet_recv_payload cb file_size st)) = received_bytes st + length rest"
proof (induction cb file_size st rule: flet_recv_payload.induct)
  case (1 cb file_size st)
  show ?case
  proof (cases "int (received_bytes st) < file_size")
    case False
    then show ?thesis by (simp add: flet_recv_payload.simps [of cb file_size st])
  next
    case True
    show ?thesis
    proof (cases "flet_payload_step cb file_size st")
      case (Continue st')
      from flet_payload_step_content [OF Continue, of st'] obtain chunk where
        c: "content st' = content st @ chunk" "received_bytes st' = received_bytes st + length chunk"
        by auto
      from "1.IH" [OF True Continue] obtain rest where
        r: "content (snd (flet_recv_payload cb file_size st')) = content st' @ rest"
           "received_bytes (snd (flet_recv_payload cb file_size st')) = received_bytes st' + length rest"
        by auto
      have "content (snd (flet_recv_payload cb file_size st)) = content st @ (chunk @ rest) \<and>
            received_bytes (snd (flet_recv_payload cb file_size st)) = received_bytes st + length (chunk @ rest)"
        using True Continue c r by (simp add: flet_recv_payload.simps [of cb file_size st])
      then show ?thesis by blast
    next
      case (Break st')
      with True flet_payload_step_content [OF Break, of st'] show ?thesis
        by (simp add: flet_recv_payload.simps [of cb file_size st])
    next
      case (Propagate e st')
      with True flet_payload_step_content [OF Propagate, of st' e] show ?thesis
        by (simp add: flet_recv_payload.simps [of cb file_size st])
    qed
  qed
qed

lemma step_stays_below:
  assumes "chunk \<noteq> []" "length chunk \<le> nat (min (int BUFFER_SIZE) (file_size - int r))"
  shows "int (r + length chunk) \<le> file_size"
proof -
  from assms have "0 < length chunk" by simp
  with assms(2) have "0 < min (int BUFFER_SIZE) (file_size - int r)" by linarith
  with assms(2) show ?thesis by linarith
qed

lemma range_retries: "[0..<MAX_RETRIES] = [0, 1, 2]"
  by (simp add: MAX_RETRIES_def upt_rec)


lemma payload_step_no_zerodiv:
  "int (received_bytes st) < file_size \<Longrightarrow>
     payload_step cb attempt file_size st \<noteq> Propagate (ZeroDivisionError m) st'"
  using recv_error [of "nat (min (int BUFFER_SIZE) (file_size - int (received_bytes st)))" "stream st"]
  by (auto simp: payload_step_def on_socket_error_def Let_def split: prod.splits sum.splits if_splits)


lemma recv_payload_no_zerodiv:
  "fst (recv_payload cb attempt file_size st) \<noteq> Some (ZeroDivisionError m)"
proof (induction cb attempt file_size st rule: recv_payload.induct)
  case (1 cb attempt file_size st)
  show ?case
  proof (cases "int (received_bytes st) < file_size")
    case False
    then show ?thesis by (simp add: recv_payload.simps [of cb attempt file_size st])
  next
    case True
    show ?thesis
    proof (cases "payload_step cb attempt file_size st")
      case (Continue st')
      with "1.IH" [OF True Continue] True show ?thesis
        by (simp add: recv_payload.simps [of cb attempt file_size st])
    next
      case (Break st')
      with True show ?thesis
        by (simp add: recv_payload.simps [of cb attempt file_size st])
    next
      case (Propagate e st')
      with True payload_step_no_zerodiv [OF True, of cb attempt m st'] show ?thesis
        by (auto simp add: recv_payload.simps [of cb attempt file_size st])
    qed
  qed
qed

lemma flet_recv_payload_raises:
  "fst (flet_recv_payload cb file_size st) = Some e \<Longrightarrow> \<exists>m. e = OSError m"
proof (induction cb file_size st rule: flet_recv_payload.induct)
  case (1 cb file_size st)
  show ?case
  proof (cases "int (received_bytes st) < file_size")
    case False
    with "1.prems" show ?thesis by (simp add: flet_recv_payload.simps [of cb file_size st])
  next
    case True
    show ?thesis
    proof (cases "flet_payload_step cb file_size st")
      case (Continue st')
      with "1.IH" [OF True Continue] "1.prems" True show ?thesis
        by (simp add: flet_recv_payload.simps [of cb file_size st])
    next
      case (Break st')
      with True "1.prems" show ?thesis
        by (simp add: flet_recv_payload.simps [of cb file_size st])
    next
      case (Propagate e' st')
      with True "1.prems" flet_payload_step_Propagate [OF Propagate True] show ?thesis
        by (simp add: flet_recv_payload.simps [of cb file_size st])
    qed
  qed
qed

section \<open>Facts about a call of the receiver with retries\<close>

lemma receive_body_cases [consumes 0, case_names header_error decode_error payload]:
  obtains
    (header_error) e s1 where
      "recv_header attempt [] (last_exception st) (inbound sk) = (Inl e, s1)"
      "receive_body now cb attempt sk st = (Raised e, st\<lparr>cl := set_inbound (cl st) sk s1\<rparr>)"
  | (decode_error) hd le s1 e where
      "recv_header attempt [] (last_exception st) (inbound sk) = (Inr (hd, le), s1)"
      "decode_header hd = Inl e"
      "receive_body now cb attempt sk st =
         (Raised e, st\<lparr>cl := set_inbound (cl st) sk s1, last_exception := le\<rparr>)"
  | (payload) hd le s1 name file_size ext rem r p where
      "recv_header attempt [] (last_exception st) (inbound sk) = (Inr (hd, le), s1)"
      "decode_header hd = Inr (name, file_size, ext, rem)"
      "recv_payload cb attempt file_size
         \<lparr>received_bytes = length rem,
          content = initial_content attempt (fs st) (destination (save_path st) ext) rem,
          stream = s1, last_exc = le, calls = cb_calls st\<rparr> = (r, p)"
      "receive_body now cb attempt sk st =
         (case r of
            Some e \<Rightarrow>
              (Raised e,
               st\<lparr>cl := set_inbound (cl st) sk (stream p),
                  fs := (fs st)(destination (save_path st) ext \<mapsto> content p),
                  save_path := destination (save_path st) ext,
                  last_exception := last_exc p, cb_calls := calls p\<rparr>)
          | None \<Rightarrow>
              if file_size \<le> int (received_bytes p)
              then (Returned True,
                    append_history (complete_record now (destination (save_path st) ext) name file_size)
                      (st\<lparr>cl := set_inbound (cl st) sk (stream p),
                          fs := (fs st)(destination (save_path st) ext \<mapsto> content p),
                          save_path := destination (save_path st) ext,
                          last_exception := last_exc p,
                          cb_calls := calls p @ (if cb then [(Hundred, received_bytes p, file_size)] else [])\<rparr>))
              else (Next,
                    st\<lparr>cl := set_inbound (cl st) sk (stream p),
                       fs := (fs st)(destination (save_path st) ext \<mapsto> content p),
                       save_path := destination (save_path st) ext,
                       last_exception := last_exc p, cb_calls := calls p\<rparr>))"
proof -
  obtain h s1 where h: "recv_header attempt [] (last_exception st) (inbound sk) = (h, s1)"
    by (cases "recv_header attempt [] (last_exception st) (inbound sk)")
  show thesis
  proof (cases h)
    case (Inl e)
    with h show thesis
      by (intro header_error [of e s1]) (simp_all add: receive_body_def)
  next
    case (Inr hl)
    obtain hd le where hl: "hl = (hd, le)" by (cases hl)
    show thesis
    proof (cases "decode_header hd")
      case (Inl e)
      with h Inr hl show thesis
        by (intro decode_error [of hd le s1 e]) (simp_all add: receive_body_def)
    next
      case (Inr d)
      obtain name file_size ext rem where d: "d = (name, file_size, ext, rem)"
        by (cases d)
      show thesis
        using h \<open>h = Inr hl\<close> hl Inr d
        by (intro payload [of hd le s1 name file_size ext rem
              "fst (recv_payload cb attempt file_size
                 \<lparr>received_bytes = length rem,
                  content = initial_content attempt (fs st) (destination (save_path st) ext) rem,
                  stream = s1, last_exc = le, calls = cb_calls st\<rparr>)"
              "snd (recv_payload cb attempt file_size
                 \<lparr>received_bytes = length rem,
                  content = initial_content attempt (fs st) (destination (save_path st) ext) rem,
                  stream = s1, last_exc = le, calls = cb_calls st\<rparr>)"])
           (simp_all add: receive_body_def Let_def split: option.splits split del: if_split cong: if_cong)
    qed
  qed
qed


lemma receive_body_client:
  "connected (cl (snd (receive_body now cb attempt sk st))) = connected (cl st) \<and>
   socket (cl (snd (receive_body now cb attempt sk st))) \<noteq> None"
  by (cases rule: receive_body_cases [where attempt = attempt and st = st and sk = sk and now = now and cb = cb])
     (auto simp: set_inbound_def append_history_def split: option.splits)

lemma receive_body_history:
  "(\<forall>b. fst (receive_body now cb attempt sk st) = Returned b \<longrightarrow>
      b \<and> (\<exists>r. download_history (cl (snd (receive_body now cb attempt sk st)))
                   = download_history (cl st) @ [r] \<and> status r = ''Complete'')) \<and>
   ((\<forall>b. fst (receive_body now cb attempt sk st) \<noteq> Returned b) \<longrightarrow>
      download_history (cl (snd (receive_body now cb attempt sk st))) = download_history (cl st))"
  by (cases rule: receive_body_cases [where attempt = attempt and st = st and sk = sk and now = now and cb = cb])
     (auto simp: set_inbound_def append_history_def complete_record_def split: option.splits)


lemma receive_body_raised_early:
  assumes "attempt < MAX_RETRIES - 1" "fst (receive_body now cb attempt sk st) = Raised e"
  shows "download_history (cl (snd (receive_body now cb attempt sk st))) = download_history (cl st)"
  using receive_body_history [of now cb attempt sk st] assms by simp


lemma retry_skipped:
  assumes "connected (cl st)" "socket (cl st) \<noteq> None" "0 < attempt"
  shows "attempt_pass dial now cb attempt st = (Next, st)"
  using assms by (auto simp: attempt_pass_def receive_attempt_def connect_def)

lemma retries_skipped:
  assumes "connected (cl st)" "socket (cl st) \<noteq> None"
  shows "attempts dial now cb [1, 2] st = (Next, st)"
  using retry_skipped [OF assms, of 1 dial now cb] retry_skipped [OF assms, of 2 dial now cb]
  by simp

lemma first_attempt:
  assumes "socket (cl st) = Some sk"
  shows "receive_attempt dial now cb 0 st = receive_body now cb 0 sk st"
  using assms by (simp add: receive_attempt_def)

lemma receive_file_unfold:
  assumes "connected c" "socket c = Some sk"
  shows "receive_file dial now cb c files sp =
     (case receive_body now cb 0 sk
             \<lparr>cl = c, fs = files, save_path = sp, last_exception = None, cb_calls = []\<rparr> of
        (Returned b, st) \<Rightarrow> (Inr b, st)
      | (Raised e, st) \<Rightarrow>
          (Inl e, append_history (failed_record now (save_path st) e) (st\<lparr>last_exception := Some e\<rparr>))
      | (Next, st) \<Rightarrow>
          (case last_exception st of
             Some e \<Rightarrow> (Inl e, append_history (failed_record now (save_path st) e) st)
           | None \<Rightarrow> (Inr False, st)))"
proof -
  let ?st0 = "\<lparr>cl = c, fs = files, save_path = sp, last_exception = None, cb_calls = []\<rparr>"
  obtain out st1 where b: "receive_body now cb 0 sk ?st0 = (out, st1)"
    by (cases "receive_body now cb 0 sk ?st0")
  have ra: "receive_attempt dial now cb 0 ?st0 = (out, st1)"
    using first_attempt [of ?st0 sk dial now cb] assms(2) b by simp
  from receive_body_client [of now cb 0 sk ?st0] b assms(1)
  have c1: "connected (cl st1)" "socket (cl st1) \<noteq> None" by simp_all
  show ?thesis
  proof (cases out)
    case (Returned x)
    with ra b assms(1) show ?thesis
      by (simp add: receive_file_def range_retries attempt_pass_def)
  next
    case (Raised e)
    have c2: "connected (cl (st1\<lparr>last_exception := Some e\<rparr>))"
             "socket (cl (st1\<lparr>last_exception := Some e\<rparr>)) \<noteq> None"
      using c1 by simp_all
    have ap: "attempt_pass dial now cb 0 ?st0 = (Next, st1\<lparr>last_exception := Some e\<rparr>)"
      using ra Raised by (simp add: attempt_pass_def MAX_RETRIES_def)
    show ?thesis
      using assms(1) b Raised ap retries_skipped [OF c2, of dial now cb]
      by (simp add: receive_file_def range_retries)
  next
    case Next
    have ap: "attempt_pass dial now cb 0 ?st0 = (Next, st1)"
      using ra Next by (simp add: attempt_pass_def)
    show ?thesis
      using assms(1) b Next ap retries_skipped [OF c1, of dial now cb]
      by (simp add: receive_file_def range_retries)
  qed
qed

section \<open>Facts about a call of the receiver without retries\<close>

lemma flet_receive_try_cases [consumes 0, case_names header_error decode_error payload]:
  obtains
    (header_error) e s1 where
      "flet_recv_header [] (inbound sk) = (Inl e, s1)"
      "flet_receive_try now cb sk st = (Inl e, st\<lparr>cl := set_inbound (cl st) sk s1\<rparr>)"
  | (decode_error) hd s1 e where
      "flet_recv_header [] (inbound sk) = (Inr hd, s1)"
      "flet_decode_header hd = Inl e"
      "flet_receive_try now cb sk st = (Inl e, st\<lparr>cl := set_inbound (cl st) sk s1\<rparr>)"
  | (payload) hd s1 name file_size rem r p where
      "flet_recv_header [] (inbound sk) = (Inr hd, s1)"
      "flet_decode_header hd = Inr (name, file_size, rem)"
      "flet_recv_payload cb file_size
         \<lparr>received_bytes = length rem, content = rem,
          stream = s1, last_exc = None, calls = cb_calls st\<rparr> = (r, p)"
      "flet_receive_try now cb sk st =
         (case r of
            Some e \<Rightarrow>
              (Inl e,
               st\<lparr>cl := set_inbound (cl st) sk (stream p),
                  fs := (fs st)(save_path st \<mapsto> content p), cb_calls := calls p\<rparr>)
          | None \<Rightarrow>
              (Inr True,
               append_history
                 \<lparr>timestamp = now, file_name = basename (save_path st),
                  original_name = name, rec_size = file_size, path = save_path st,
                  status = flet_status (received_bytes p) file_size\<rparr>
                 (st\<lparr>cl := set_inbound (cl st) sk (stream p),
                     fs := (fs st)(save_path st \<mapsto> content p),
                     cb_calls := calls p @ (if cb then [(Hundred, received_bytes p, file_size)] else [])\<rparr>)))"
proof -
  obtain h s1 where h: "flet_recv_header [] (inbound sk) = (h, s1)"
    by (cases "flet_recv_header [] (inbound sk)")
  show thesis
  proof (cases h)
    case (Inl e)
    with h show thesis
      by (intro header_error [of e s1]) (simp_all add: flet_receive_try_def)
  next
    case (Inr hd)
    show thesis
    proof (cases "flet_decode_header hd")
      case (Inl e)
      with h \<open>h = Inr hd\<close> show thesis
        by (intro decode_error [of hd s1 e]) (simp_all add: flet_receive_try_def)
    next
      case (Inr d)
      obtain name file_size rem where d: "d = (name, file_size, rem)"
        by (cases d)
      have w: "(if rem \<noteq> [] then rem else []) = rem" by simp
      show thesis
        using h \<open>h = Inr hd\<close> Inr d
        by (intro payload [of hd s1 name file_size rem
              "fst (flet_recv_payload cb file_size
                 \<lparr>received_bytes = length rem, content = rem,
                  stream = s1, last_exc = None, calls = cb_calls st\<rparr>)"
              "snd (flet_recv_payload cb file_size
                 \<lparr>received_bytes = length rem, content = rem,
                  stream = s1, last_exc = None, calls = cb_calls st\<rparr>)"])
           (simp_all add: flet_receive_try_def Let_def w split: option.splits split del: if_split cong: if_cong)
    qed
  qed
qed


lemma flet_receive_file_unfold:
  assumes "connected c" "socket c = Some sk"
  shows "flet_receive_file now cb c files sp =
     (case flet_receive_try now cb sk
             \<lparr>cl = c, fs = files, save_path = sp, last_exception = None, cb_calls = []\<rparr> of
        (Inl e, st) \<Rightarrow> (Inl e, append_history (failed_record now (save_path st) e) st)
      | (Inr b, st) \<Rightarrow> (Inr b, st))"
  using assms by (simp add: flet_receive_file_def)



lemma recv_header_first:
  assumes "NL \<in> set bs" "length bs \<le> BUFFER_SIZE"
  shows "recv_header attempt [] le (Data bs due # s) = (Inr (bs, le), s)"
proof -
  from assms(1) have ne: "bs \<noteq> []" by auto
  from assms(2) have len: "\<not> 1024000 < length bs" by (simp add: BUFFER_SIZE_def)
  have r: "recv BUFFER_SIZE (Data bs due # s) = (Inr (bs, due), s)"
    using assms(2) by simp
  have "recv_header attempt [] le (Data bs due # s) = recv_header attempt bs le s"
    by (subst recv_header.simps) (simp add: assms(2) ne len)
  also have "\<dots> = (Inr (bs, le), s)"
    by (subst recv_header.simps) (simp add: assms(1))
  finally show ?thesis .
qed

lemma flet_recv_header_first:
  assumes "NL \<in> set bs" "length bs \<le> BUFFER_SIZE"
  shows "flet_recv_header [] (Data bs due # s) = (Inr bs, s)"
proof -
  from assms(1) have ne: "bs \<noteq> []" by auto
  have r: "recv BUFFER_SIZE (Data bs due # s) = (Inr (bs, due), s)"
    using assms(2) by simp
  have "flet_recv_header [] (Data bs due # s) = flet_recv_header bs s"
    by (subst flet_recv_header.simps) (simp add: assms(2) ne)
  also have "\<dots> = (Inr bs, s)"
    by (subst flet_recv_header.simps) (simp add: assms(1))
  finally show ?thesis .
qed


lemma recv_payload_zero:
  "recv_payload cb attempt 0 st = (None, st)" "flet_recv_payload cb 0 st = (None, st)"
  by (simp_all add: recv_payload.simps [of cb attempt 0 st] flet_recv_payload.simps [of cb 0 st])

lemma receive_body_zero:
  assumes "recv_header attempt [] (last_exception st) (inbound sk) = (Inr (hdr, le), s1)"
    and "decode_header hdr = Inr (name, 0, ext, rem)"
  shows "receive_body now cb attempt sk st =
     (Returned True,
      append_history (complete_record now (destination (save_path st) ext) name 0)
        (st\<lparr>cl := set_inbound (cl st) sk s1,
            fs := (fs st)(destination (save_path st) ext \<mapsto>
                            initial_content attempt (fs st) (destination (save_path st) ext) rem),
            save_path := destination (save_path st) ext,
            last_exception := le,
            cb_calls := cb_calls st @ (if cb then [(Hundred, length rem, 0)] else [])\<rparr>))"
  using assms by (simp add: receive_body_def Let_def recv_payload_zero)

lemma flet_receive_try_zero:
  assumes "flet_recv_header [] (inbound sk) = (Inr hdr, s1)"
    and "flet_decode_header hdr = Inr (name, 0, rem)"
  shows "flet_receive_try now cb sk st =
     (Inr True,
      append_history
        \<lparr>timestamp = now, file_name = basename (save_path st), original_name = name,
         rec_size = 0, path = save_path st, status = ''Complete''\<rparr>
        (st\<lparr>cl := set_inbound (cl st) sk s1,
            fs := (fs st)(save_path st \<mapsto> rem),
            cb_calls := cb_calls st @ (if cb then [(Hundred, length rem, 0)] else [])\<rparr>))"
  using assms by (simp add: flet_receive_try_def Let_def recv_payload_zero flet_status_def)

lemma flet_payload_step_no_fail:
  assumes "no_fail (stream st)" "int (received_bytes st) < file_size"
  shows "(\<exists>st'. flet_payload_step cb file_size st = Break st' \<and> received_bytes st' = received_bytes st) \<or>
         (\<exists>st'. flet_payload_step cb file_size st = Continue st' \<and> no_fail (stream st') \<and>
             received_bytes st' + length (data_bytes (stream st'))
               = received_bytes st + length (data_bytes (stream st)))"
proof -
  from recv_no_fail [OF assms(1), of "nat (min (int BUFFER_SIZE) (file_size - int (received_bytes st)))"]
  obtain chunk due s' where
    r: "recv (nat (min (int BUFFER_SIZE) (file_size - int (received_bytes st)))) (stream st)
          = (Inr (chunk, due), s')"
    and n: "no_fail s'" and d: "data_bytes (stream st) = chunk @ data_bytes s'"
    by blast
  from assms(2) have z: "file_size \<noteq> 0" by auto
  show ?thesis
    using r n d z by (cases "chunk = []") (auto simp: flet_payload_step_def Let_def)
qed

lemma payload_step_no_fail:
  assumes "no_fail (stream st)" "int (received_bytes st) < file_size" "attempt < MAX_RETRIES - 1"
  shows "(\<exists>st'. payload_step cb attempt file_size st = Break st' \<and> received_bytes st' = received_bytes st \<and>
             last_exc st' = Some (ConnectionError ''Connection lost during transfer'')) \<or>
         (\<exists>st'. payload_step cb attempt file_size st = Continue st' \<and> no_fail (stream st') \<and>
             received_bytes st' + length (data_bytes (stream st'))
               = received_bytes st + length (data_bytes (stream st)))"
proof -
  from recv_no_fail [OF assms(1), of "nat (min (int BUFFER_SIZE) (file_size - int (received_bytes st)))"]
  obtain chunk due s' where
    r: "recv (nat (min (int BUFFER_SIZE) (file_size - int (received_bytes st)))) (stream st)
          = (Inr (chunk, due), s')"
    and n: "no_fail s'" and d: "data_bytes (stream st) = chunk @ data_bytes s'"
    by blast
  from assms(2) have z: "file_size \<noteq> 0" by auto
  show ?thesis
    using r n d z assms(3)
    by (cases "chunk = []") (auto simp: payload_step_def on_socket_error_def Let_def)
qed

lemma flet_premature_close:
  assumes "no_fail (stream st)"
    and "int (received_bytes st + length (data_bytes (stream st))) < file_size"
  shows "fst (flet_recv_payload cb file_size st) = None \<and>
         int (received_bytes (snd (flet_recv_payload cb file_size st))) < file_size"
  using assms
proof (induction cb file_size st rule: flet_recv_payload.induct)
  case (1 cb file_size st)
  from "1.prems"(2) have g: "int (received_bytes st) < file_size" by simp
  from flet_payload_step_no_fail [OF "1.prems"(1) g, of cb]
  show ?case
  proof (elim disjE exE conjE)
    fix st' assume "flet_payload_step cb file_size st = Break st'" "received_bytes st' = received_bytes st"
    with g show ?thesis by (simp add: flet_recv_payload.simps [of cb file_size st])
  next
    fix st' assume c: "flet_payload_step cb file_size st = Continue st'" and n: "no_fail (stream st')"
      and e: "received_bytes st' + length (data_bytes (stream st'))
               = received_bytes st + length (data_bytes (stream st))"
    from e "1.prems"(2) have "int (received_bytes st' + length (data_bytes (stream st'))) < file_size"
      by simp
    from "1.IH" [OF g c n this] g c show ?thesis
      by (simp add: flet_recv_payload.simps [of cb file_size st])
  qed
qed

lemma premature_close:
  assumes "attempt < MAX_RETRIES - 1" "no_fail (stream st)"
    and "int (received_bytes st + length (data_bytes (stream st))) < file_size"
  shows "fst (recv_payload cb attempt file_size st) = None \<and>
         int (received_bytes (snd (recv_payload cb attempt file_size st))) < file_size \<and>
         last_exc (snd (recv_payload cb attempt file_size st))
           = Some (ConnectionError ''Connection lost during transfer'')"
  using assms
proof (induction cb attempt file_size st rule: recv_payload.induct)
  case (1 cb attempt file_size st)
  from "1.prems"(3) have g: "int (received_bytes st) < file_size" by simp
  from payload_step_no_fail [OF "1.prems"(2) g "1.prems"(1), of cb]
  show ?case
  proof (elim disjE exE conjE)
    fix st' assume "payload_step cb attempt file_size st = Break st'" "received_bytes st' = received_bytes st"
      "last_exc st' = Some (ConnectionError ''Connection lost during transfer'')"
    with g show ?thesis by (simp add: recv_payload.simps [of cb attempt file_size st])
  next
    fix st' assume c: "payload_step cb attempt file_size st = Continue st'" and n: "no_fail (stream st')"
      and e: "received_bytes st' + length (data_bytes (stream st'))
               = received_bytes st + length (data_bytes (stream st))"
    from e "1.prems"(3) have "int (received_bytes st' + length (data_bytes (stream st'))) < file_size"
      by simp
    from "1.IH" [OF g c "1.prems"(1) n this] g c show ?thesis
      by (simp add: recv_payload.simps [of cb attempt file_size st])
  qed
qed


lemma receive_file_premature:
  assumes "connected c" "socket c = Some sk"
    and h: "recv_header 0 [] None (inbound sk) = (Inr (hdr, le), s1)"
    and d: "decode_header hdr = Inr (name, n, ext, rem)"
    and nf: "no_fail s1" and few: "int (length rem + length (data_bytes s1)) < n"
  shows "fst (receive_file dial now cb c files sp)
           = Inl (ConnectionError ''Connection lost during transfer'') \<and>
         (\<exists>r. download_history (cl (snd (receive_file dial now cb c files sp)))
                 = download_history c @ [r] \<and>
              status r = ''Failed: Connection lost during transfer'')"
proof -
  let ?st0 = "\<lparr>cl = c, fs = files, save_path = sp, last_exception = None, cb_calls = []\<rparr>"
  let ?p0 = "\<lparr>received_bytes = length rem,
              content = initial_content 0 files (destination sp ext) rem,
              stream = s1, last_exc = le, calls = []\<rparr>"
  have a: "0 < MAX_RETRIES - 1" by (simp add: MAX_RETRIES_def)
  from premature_close [OF a, of ?p0 n cb] nf few
  have r: "fst (recv_payload cb 0 n ?p0) = None"
    and k: "int (received_bytes (snd (recv_payload cb 0 n ?p0))) < n"
    and l: "last_exc (snd (recv_payload cb 0 n ?p0))
              = Some (ConnectionError ''Connection lost during transfer'')"
    by simp_all
  have b: "fst (receive_body now cb 0 sk ?st0) = Next \<and>
           last_exception (snd (receive_body now cb 0 sk ?st0))
             = Some (ConnectionError ''Connection lost during transfer'') \<and>
           download_history (cl (snd (receive_body now cb 0 sk ?st0))) = download_history c"
    using h d r k l by (simp add: receive_body_def Let_def set_inbound_def)
  obtain out st1 where o: "receive_body now cb 0 sk ?st0 = (out, st1)"
    by (cases "receive_body now cb 0 sk ?st0")
  with b have "out = Next"
    "last_exception st1 = Some (ConnectionError ''Connection lost during transfer'')"
    "download_history (cl st1) = download_history c" by simp_all
  with receive_file_unfold [OF assms(1,2), of dial now cb files sp] o show ?thesis
    by (simp add: append_history_def failed_record_def)
qed

lemma incomplete_not_complete:
  "''Incomplete ('' @ x \<noteq> ''Complete''"
  by simp

lemma flet_receive_file_premature:
  assumes "connected c" "socket c = Some sk"
    and h: "flet_recv_header [] (inbound sk) = (Inr hdr, s1)"
    and d: "flet_decode_header hdr = Inr (name, n, rem)"
    and nf: "no_fail s1" and few: "int (length rem + length (data_bytes s1)) < n"
  shows "fst (flet_receive_file now cb c files sp) = Inr True \<and>
         (\<exists>r k. download_history (cl (snd (flet_receive_file now cb c files sp)))
                 = download_history c @ [r] \<and> int k < n \<and>
              status r = ''Incomplete ('' @ str_nat k @ ''/'' @ str_int n @ '' bytes)'' \<and>
              status r \<noteq> ''Complete'')"
proof -
  let ?st0 = "\<lparr>cl = c, fs = files, save_path = sp, last_exception = None, cb_calls = []\<rparr>"
  let ?p0 = "\<lparr>received_bytes = length rem, content = rem,
              stream = s1, last_exc = None, calls = []\<rparr>"
  from flet_premature_close [of ?p0 n cb] nf few
  have r: "fst (flet_recv_payload cb n ?p0) = None"
    and k: "int (received_bytes (snd (flet_recv_payload cb n ?p0))) < n"
    by simp_all
  have w: "(if rem \<noteq> [] then rem else []) = rem" by simp
  from k have st: "flet_status (received_bytes (snd (flet_recv_payload cb n ?p0))) n
      = ''Incomplete ('' @ str_nat (received_bytes (snd (flet_recv_payload cb n ?p0))) @ ''/'' @ str_int n @ '' bytes)''"
    by (simp add: flet_status_def)
  have b: "fst (flet_receive_try now cb sk ?st0) = Inr True \<and>
           (\<exists>r. download_history (cl (snd (flet_receive_try now cb sk ?st0))) = download_history c @ [r] \<and>
             status r = ''Incomplete ('' @ str_nat (received_bytes (snd (flet_recv_payload cb n ?p0))) @ ''/'' @ str_int n @ '' bytes)'')"
    using h d r st by (simp add: flet_receive_try_def Let_def set_inbound_def append_history_def w)
  obtain out st1 where o: "flet_receive_try now cb sk ?st0 = (out, st1)"
    by (cases "flet_receive_try now cb sk ?st0")
  with b obtain rec where "out = Inr True" "download_history (cl st1) = download_history c @ [rec]"
     "status rec = ''Incomplete ('' @ str_nat (received_bytes (snd (flet_recv_payload cb n ?p0))) @ ''/'' @ str_int n @ '' bytes)''"
    by auto
  with flet_receive_file_unfold [OF assms(1,2), of now cb files sp] o k show ?thesis
    by auto
qed

lemma destination_out: "destination ''out'' ''.txt'' = ''out.txt''"
  by code_simp

lemma initial_content_wb:
  "attempt = 0 \<or> files sp = None \<Longrightarrow> initial_content attempt files sp rem = rem"
  by (auto simp: initial_content_def split: option.splits)

lemma receive_body_leftover:
  assumes h: "recv_header attempt [] (last_exception st) (inbound sk) = (Inr (hdr, le), s1)"
    and d: "decode_header hdr = Inr (name, n, ext, rem)"
    and wb: "attempt = 0 \<or> fs st (destination (save_path st) ext) = None"
  shows "\<exists>rest. fs (snd (receive_body now cb attempt sk st)) (destination (save_path st) ext)
                  = Some (rem @ rest) \<and>
          (fst (receive_body now cb attempt sk st) = Returned True \<longrightarrow> cb \<longrightarrow>
             last (cb_calls (snd (receive_body now cb attempt sk st)))
               = (Hundred, length (rem @ rest), n))"
proof (cases rule: receive_body_cases [where attempt = attempt and st = st and sk = sk and now = now and cb = cb])
  case (header_error e s1)
  with h show ?thesis by simp
next
  case (decode_error hd le s1 e)
  with h d show ?thesis by simp
next
  case (payload hd le' s1' name' file_size ext' rem' r p)
  with h d have eq: "name' = name" "file_size = n" "ext' = ext" "rem' = rem" by simp_all
  from recv_payload_content
         [of cb attempt file_size
             "\<lparr>received_bytes = length rem',
               content = initial_content attempt (fs st) (destination (save_path st) ext') rem',
               stream = s1', last_exc = le', calls = cb_calls st\<rparr>"]
       payload(3)
       initial_content_wb [of attempt "fs st" "destination (save_path st) ext" rem, OF wb] eq
  obtain rest where
    c: "content p = rem @ rest" and k: "received_bytes p = length rem + length rest"
    by auto
  have "fs (snd (receive_body now cb attempt sk st)) (destination (save_path st) ext)
                  = Some (rem @ rest) \<and>
          (fst (receive_body now cb attempt sk st) = Returned True \<longrightarrow> cb \<longrightarrow>
             last (cb_calls (snd (receive_body now cb attempt sk st)))
               = (Hundred, length (rem @ rest), n))"
    using payload(4) eq c k
    by (cases r) (auto simp: append_history_def split: if_splits)
  then show ?thesis by blast
qed

lemma flet_receive_try_leftover:
  assumes h: "flet_recv_header [] (inbound sk) = (Inr hdr, s1)"
    and d: "flet_decode_header hdr = Inr (name, n, rem)"
  shows "\<exists>rest. fs (snd (flet_receive_try now cb sk st)) (save_path st) = Some (rem @ rest) \<and>
          (fst (flet_receive_try now cb sk st) = Inr True \<longrightarrow> cb \<longrightarrow>
             last (cb_calls (snd (flet_receive_try now cb sk st)))
               = (Hundred, length (rem @ rest), n))"
proof (cases rule: flet_receive_try_cases [where st = st and sk = sk and now = now and cb = cb])
  case (header_error e s1)
  with h show ?thesis by simp
next
  case (decode_error hd s1 e)
  with h d show ?thesis by simp
next
  case (payload hd s1' name' file_size rem' r p)
  with h d have eq: "name' = name" "file_size = n" "rem' = rem" by simp_all
  from flet_recv_payload_content
         [of cb file_size
             "\<lparr>received_bytes = length rem', content = rem',
               stream = s1', last_exc = None, calls = cb_calls st\<rparr>"]
       payload(3) eq
  obtain rest where
    c: "content p = rem @ rest" and k: "received_bytes p = length rem + length rest"
    by auto
  have "fs (snd (flet_receive_try now cb sk st)) (save_path st) = Some (rem @ rest) \<and>
          (fst (flet_receive_try now cb sk st) = Inr True \<longrightarrow> cb \<longrightarrow>
             last (cb_calls (snd (flet_receive_try now cb sk st)))
               = (Hundred, length (rem @ rest), n))"
    using payload(4) eq c k
    by (cases r) (auto simp: append_history_def split: if_splits)
  then show ?thesis by blast
qed

lemma data_bytes_nonempty: "data_bytes s \<noteq> [] \<Longrightarrow> s \<noteq> []"
  by auto

lemma recv_header_too_large:
  assumes "clean s" "NL \<notin> set h0" "length h0 \<le> 1024000"
    and "1024000 < length h0 + length (data_bytes s)"
    and "NL \<notin> set (take (1024000 - length h0) (data_bytes s))"
  shows "fst (recv_header attempt h0 le s)
           = Inl (ValueError ''File header too large, possibly invalid data'')"
  using assms
proof (induction "stream_size s" arbitrary: s h0 rule: less_induct)
  case less
  from less.prems(3,4) have "data_bytes s \<noteq> []" by auto
  then have ne: "s \<noteq> []" by auto
  have pos: "0 < BUFFER_SIZE" by (simp add: BUFFER_SIZE_def)
  from recv_clean [OF less.prems(1) ne pos]
  obtain chunk due s' where
    r: "recv BUFFER_SIZE s = (Inr (chunk, due), s')" and cl: "clean s'"
    and cne: "chunk \<noteq> []" and d: "data_bytes s = chunk @ data_bytes s'"
    by blast
  show ?case
  proof (cases "1024000 < length (h0 @ chunk)")
    case True
    with less.prems(2) r cne show ?thesis
      by (simp add: recv_header.simps [of attempt h0 le s])
  next
    case False
    then have len: "length (h0 @ chunk) \<le> 1024000" by simp
    then have lc: "length chunk \<le> 1024000 - length h0" by simp
    from less.prems(5) d lc have nl: "NL \<notin> set chunk" by simp
    from less.prems(5) d lc
    have nl': "NL \<notin> set (take (1024000 - length (h0 @ chunk)) (data_bytes s'))"
      by simp
    from less.prems(4) d have tot: "1024000 < length (h0 @ chunk) + length (data_bytes s')"
      by simp
    from less.prems(2) nl have nlh: "NL \<notin> set (h0 @ chunk)" by simp
    have sm: "stream_size s' < stream_size s"
      using recv_consumes [OF r cne pos] .
    from less.hyps [OF sm cl nlh len tot nl']
    have "fst (recv_header attempt (h0 @ chunk) le s')
            = Inl (ValueError ''File header too large, possibly invalid data'')" .
    with less.prems(2) r cne False show ?thesis
      by (simp add: recv_header.simps [of attempt h0 le s])
  qed
qed

lemma recv_header_bounded:
  assumes "length h0 \<le> 1024000" "recv_header attempt h0 le s = (Inr (h, le'), s')"
  shows "length h \<le> 1024000"
  using assms
proof (induction attempt h0 le s rule: recv_header.induct)
  case (1 attempt header_data last_exc s)
  show ?case
  proof (cases "NL \<in> set header_data")
    case True
    with "1.prems" show ?thesis
      by (simp add: recv_header.simps [of attempt header_data last_exc s])
  next
    case False
    obtain x s1 where r: "recv BUFFER_SIZE s = (x, s1)" by (cases "recv BUFFER_SIZE s")
    show ?thesis
    proof (cases x)
      case (Inl e)
      with False r "1.prems" show ?thesis
        by (simp add: recv_header.simps [of attempt header_data last_exc s] split: if_splits)
    next
      case (Inr cd)
      obtain chunk due where cd: "cd = (chunk, due)" by (cases cd)
      show ?thesis
      proof (cases "chunk = [] \<or> 1024000 < length (header_data @ chunk)")
        case True
        with False r Inr cd "1.prems" show ?thesis
          by (auto simp add: recv_header.simps [of attempt header_data last_exc s] split: if_splits)
      next
        case f: False
        then have a: "chunk \<noteq> []" and b: "\<not> 1024000 < length (header_data @ chunk)" by auto
        from b have len: "length (header_data @ chunk) \<le> 1024000" by simp
        from False r Inr cd a b "1.prems"(2)
        have "recv_header attempt (header_data @ chunk) last_exc s1 = (Inr (h, le'), s')"
          by (simp add: recv_header.simps [of attempt header_data last_exc s])
        from "1.IH" [OF False r [symmetric] Inr cd [symmetric] a b len this]
        show ?thesis .
      qed
    qed
  qed
qed

lemma flet_recv_header_long:
  assumes "NL \<notin> set h0" "NL \<notin> set xs"
  shows "flet_recv_header h0 [Data (xs @ [NL]) due] = (Inr (h0 @ xs @ [NL]), [])"
  using assms
proof (induction "length xs" arbitrary: xs h0 rule: less_induct)
  case less
  show ?case
  proof (cases "length (xs @ [NL]) \<le> BUFFER_SIZE")
    case True
    then have r: "recv BUFFER_SIZE [Data (xs @ [NL]) due] = (Inr (xs @ [NL], due), [])"
      by simp
    have "flet_recv_header h0 [Data (xs @ [NL]) due] = flet_recv_header (h0 @ xs @ [NL]) []"
      using less.prems(1) True
      by (subst flet_recv_header.simps) simp
    also have "\<dots> = (Inr (h0 @ xs @ [NL]), [])"
      by (subst flet_recv_header.simps) simp
    finally show ?thesis .
  next
    case False
    then have big: "BUFFER_SIZE \<le> length xs" by simp
    then have t: "take BUFFER_SIZE (xs @ [NL]) = take BUFFER_SIZE xs"
      and dr: "drop BUFFER_SIZE (xs @ [NL]) = drop BUFFER_SIZE xs @ [NL]"
      by simp_all
    have pos: "0 < BUFFER_SIZE" by (simp add: BUFFER_SIZE_def)
    with big have tne: "take BUFFER_SIZE xs \<noteq> []" by auto
    have sm: "length (drop BUFFER_SIZE xs) < length xs" using big pos by simp
    have n1: "NL \<notin> set (h0 @ take BUFFER_SIZE xs)"
      using less.prems by (auto dest: in_set_takeD)
    have n2: "NL \<notin> set (drop BUFFER_SIZE xs)"
      using less.prems by (auto dest: in_set_dropD)
    have "flet_recv_header h0 [Data (xs @ [NL]) due]
            = flet_recv_header (h0 @ take BUFFER_SIZE xs) [Data (drop BUFFER_SIZE xs @ [NL]) due]"
      using less.prems(1) False t dr tne
      by (subst flet_recv_header.simps) simp
    also have "\<dots> = (Inr ((h0 @ take BUFFER_SIZE xs) @ drop BUFFER_SIZE xs @ [NL]), [])"
      by (rule less.hyps [OF sm n1 n2])
    finally show ?thesis by simp
  qed
qed


lemma receive_file_header_error:
  assumes "connected c" "socket c = Some sk"
    and "fst (recv_header 0 [] None (inbound sk)) = Inl e"
  shows "fst (receive_file dial now cb c files sp) = Inl e"
proof -
  let ?st0 = "\<lparr>cl = c, fs = files, save_path = sp, last_exception = None, cb_calls = []\<rparr>"
  obtain s1 where h: "recv_header 0 [] None (inbound sk) = (Inl e, s1)"
    using assms(3) by (cases "recv_header 0 [] None (inbound sk)") auto
  then have b: "receive_body now cb 0 sk ?st0 = (Raised e, ?st0\<lparr>cl := set_inbound c sk s1\<rparr>)"
    by (simp add: receive_body_def)
  show ?thesis
    unfolding receive_file_unfold [OF assms(1,2)] b by simp
qed

section \<open>Facts about the senders\<close>

lemma sendall_ok:
  "no_send_fail evs \<Longrightarrow> \<exists>evs'. sendall data evs = (None, data, evs') \<and> no_send_fail evs'"
proof (induction evs arbitrary: data)
  case Nil
  then show ?case by simp
next
  case (Cons ev evs)
  show ?case
  proof (cases ev)
    case (Accept k)
    with Cons.prems have nf: "no_send_fail evs" by simp
    show ?thesis
    proof (cases "length data \<le> k")
      case True
      with Accept nf show ?thesis by simp
    next
      case False
      from Cons.IH [OF nf, of "drop k data"] obtain evs' where
        "sendall (drop k data) evs = (None, drop k data, evs')" "no_send_fail evs'" by blast
      with Accept False show ?thesis by simp
    qed
  next
    case (SendFail m)
    with Cons.prems show ?thesis by simp
  qed
qed

lemma send_ok:
  "accepts n evs \<Longrightarrow> length data \<le> n \<Longrightarrow>
     \<exists>evs'. send data evs = (None, data, evs') \<and> accepts n evs'"
  by (cases "(data, evs)" rule: send.cases) auto

lemma accepts_mono: "accepts n evs \<Longrightarrow> m \<le> n \<Longrightarrow> accepts m evs"
  by (induction n evs rule: accepts.induct) auto

lemma progress_marks_step:
  "0 < left \<Longrightarrow>
     progress_marks sent left =
       (sent + min BUFFER_SIZE left) #
       progress_marks (sent + min BUFFER_SIZE left) (left - min BUFFER_SIZE left)"
  by (subst progress_marks.simps) simp

lemma progress_marks_zero: "progress_marks sent 0 = []"
  by (subst progress_marks.simps) simp

lemma send_chunks_ok:
  assumes "no_send_fail (plan st)" "file_size \<noteq> 0 \<or> unread st = []"
  shows "fst (send_chunks cb file_size st) = None \<and>
         wire (snd (send_chunks cb file_size st)) = wire st @ unread st \<and>
         sent_bytes (snd (send_chunks cb file_size st)) = sent_bytes st + length (unread st) \<and>
         progress_calls (snd (send_chunks cb file_size st)) =
           progress_calls st @
           (if cb then map (\<lambda>k. Percent k file_size)
                         (progress_marks (sent_bytes st) (length (unread st)))
            else [])"
  using assms
proof (induction "length (unread st)" arbitrary: st rule: less_induct)
  case less
  show ?case
  proof (cases "unread st = []")
    case True
    then show ?thesis
      by (simp add: send_chunks.simps [of cb file_size st] progress_marks_zero)
  next
    case False
    have pos: "0 < BUFFER_SIZE" by (simp add: BUFFER_SIZE_def)
    from False pos have dne: "take BUFFER_SIZE (unread st) \<noteq> []" by (cases "unread st") auto
    from False less.prems(2) have fz: "file_size \<noteq> 0" by simp
    from sendall_ok [OF less.prems(1), of "take BUFFER_SIZE (unread st)"] obtain evs' where
      sa: "sendall (take BUFFER_SIZE (unread st)) (plan st) = (None, take BUFFER_SIZE (unread st), evs')"
      and nf: "no_send_fail evs'" by blast
    let ?sent = "sent_bytes st + length (take BUFFER_SIZE (unread st))"
    let ?st1 = "st\<lparr>unread := drop BUFFER_SIZE (unread st),
                    wire := wire st @ take BUFFER_SIZE (unread st),
                    plan := evs', sent_bytes := ?sent\<rparr>"
    let ?st2 = "?st1\<lparr>progress_calls := progress_calls ?st1 @ [Percent ?sent file_size]\<rparr>"
    have sm: "length (drop BUFFER_SIZE (unread st)) < length (unread st)"
      using False pos by simp
    have lm: "length (take BUFFER_SIZE (unread st)) = min BUFFER_SIZE (length (unread st))"
      by (simp add: min.commute)
    have pm: "progress_marks (sent_bytes st) (length (unread st)) =
                ?sent # progress_marks ?sent (length (drop BUFFER_SIZE (unread st)))"
    proof -
      have e: "length (unread st) - min BUFFER_SIZE (length (unread st))
                 = length (unread st) - BUFFER_SIZE" by arith
      from False have "0 < length (unread st)" by simp
      from progress_marks_step [OF this, of "sent_bytes st"] show ?thesis
        by (simp only: lm e length_drop)
    qed
    show ?thesis
    proof (cases cb)
      case True
      have u: "send_chunks cb file_size st = send_chunks cb file_size ?st2"
        using dne sa fz True
        by (subst send_chunks.simps) (simp add: Let_def)
      have "length (unread ?st2) < length (unread st)" using sm by simp
      from less.hyps [OF this, of ] nf fz
      have ih: "fst (send_chunks cb file_size ?st2) = None \<and>
         wire (snd (send_chunks cb file_size ?st2)) = wire ?st2 @ unread ?st2 \<and>
         sent_bytes (snd (send_chunks cb file_size ?st2)) = sent_bytes ?st2 + length (unread ?st2) \<and>
         progress_calls (snd (send_chunks cb file_size ?st2)) =
           progress_calls ?st2 @
           (if cb then map (\<lambda>k. Percent k file_size)
                         (progress_marks (sent_bytes ?st2) (length (unread ?st2)))
            else [])"
        by simp
      show ?thesis
        unfolding u using ih True pm by simp
    next
      case False
      have u: "send_chunks cb file_size st = send_chunks cb file_size ?st1"
        using dne sa False
        by (subst send_chunks.simps) (simp add: Let_def)
      have "length (unread ?st1) < length (unread st)" using sm by simp
      from less.hyps [OF this, of ] nf fz
      have ih: "fst (send_chunks cb file_size ?st1) = None \<and>
         wire (snd (send_chunks cb file_size ?st1)) = wire ?st1 @ unread ?st1 \<and>
         sent_bytes (snd (send_chunks cb file_size ?st1)) = sent_bytes ?st1 + length (unread ?st1) \<and>
         progress_calls (snd (send_chunks cb file_size ?st1)) =
           progress_calls ?st1 @
           (if cb then map (\<lambda>k. Percent k file_size)
                         (progress_marks (sent_bytes ?st1) (length (unread ?st1)))
            else [])"
        by simp
      show ?thesis
        unfolding u using ih False by simp
    qed
  qed
qed


lemma flet_send_chunks_ok:
  assumes "accepts BUFFER_SIZE (plan st)"
    and "int (sent_bytes st + length (unread st)) = file_size"
  shows "fst (flet_send_chunks file_size st) = None \<and>
         wire (snd (flet_send_chunks file_size st)) = wire st @ unread st \<and>
         sent_bytes (snd (flet_send_chunks file_size st)) = sent_bytes st + length (unread st) \<and>
         progress_calls (snd (flet_send_chunks file_size st)) = progress_calls st"
  using assms
proof (induction "length (unread st)" arbitrary: st rule: less_induct)
  case less
  show ?case
  proof (cases "unread st = []")
    case True
    with less.prems(2) show ?thesis
      by (simp add: flet_send_chunks.simps [of file_size st])
  next
    case False
    have pos: "0 < BUFFER_SIZE" by (simp add: BUFFER_SIZE_def)
    from False pos have dne: "take BUFFER_SIZE (unread st) \<noteq> []" by (cases "unread st") auto
    from False less.prems(2) have g: "int (sent_bytes st) < file_size" by auto
    have "length (take BUFFER_SIZE (unread st)) \<le> BUFFER_SIZE" by simp
    from send_ok [OF less.prems(1) this] obtain evs' where
      sa: "send (take BUFFER_SIZE (unread st)) (plan st) = (None, take BUFFER_SIZE (unread st), evs')"
      and ac: "accepts BUFFER_SIZE evs'" by blast
    let ?st1 = "st\<lparr>unread := drop BUFFER_SIZE (unread st),
                    wire := wire st @ take BUFFER_SIZE (unread st),
                    plan := evs',
                    sent_bytes := sent_bytes st + length (take BUFFER_SIZE (unread st))\<rparr>"
    have u: "flet_send_chunks file_size st = flet_send_chunks file_size ?st1"
      using dne sa g
      by (subst flet_send_chunks.simps) (simp add: Let_def)
    have sm: "length (unread ?st1) < length (unread st)" using False pos by simp
    have inv: "int (sent_bytes ?st1 + length (unread ?st1)) = file_size"
      using less.prems(2) by simp
    from less.hyps [OF sm _ inv] ac
    have ih: "fst (flet_send_chunks file_size ?st1) = None \<and>
         wire (snd (flet_send_chunks file_size ?st1)) = wire ?st1 @ unread ?st1 \<and>
         sent_bytes (snd (flet_send_chunks file_size ?st1)) = sent_bytes ?st1 + length (unread ?st1) \<and>
         progress_calls (snd (flet_send_chunks file_size ?st1)) = progress_calls ?st1"
      by simp
    show ?thesis
      unfolding u using ih by simp
  qed
qed

lemma send_file_ok:
  assumes "files file_path = Some d" "no_send_fail plan0"
  shows "fst (send_file now cb peer files file_path plan0) = True \<and>
         fst (snd (send_file now cb peer files file_path plan0))
           = \<lparr>t_timestamp = now, t_file = basename file_path, t_size = int (length d),
              t_client = peer, t_status = ''Complete''\<rparr> \<and>
         wire (snd (snd (send_file now cb peer files file_path plan0)))
           = header_line (basename file_path) (int (length d)) @ d \<and>
         sent_bytes (snd (snd (send_file now cb peer files file_path plan0))) = length d \<and>
         progress_calls (snd (snd (send_file now cb peer files file_path plan0)))
           = (if cb then map (\<lambda>k. Percent k (int (length d))) (progress_marks 0 (length d))
              else [])"
proof -
  let ?h = "header_line (basename file_path) (int (length d))"
  from sendall_ok [OF assms(2), of ?h] obtain plan1 where
    s1: "sendall ?h plan0 = (None, ?h, plan1)" and nf: "no_send_fail plan1" by blast
  let ?st = "\<lparr>unread = d, sent_bytes = 0, wire = ?h, plan = plan1, progress_calls = []\<rparr>"
  have z: "int (length d) \<noteq> 0 \<or> unread ?st = []" by auto
  from send_chunks_ok [of ?st "int (length d)" cb] nf z
  have c: "fst (send_chunks cb (int (length d)) ?st) = None"
    "wire (snd (send_chunks cb (int (length d)) ?st)) = ?h @ d"
    "sent_bytes (snd (send_chunks cb (int (length d)) ?st)) = length d"
    "progress_calls (snd (send_chunks cb (int (length d)) ?st))
       = (if cb then map (\<lambda>k. Percent k (int (length d))) (progress_marks 0 (length d)) else [])"
    by simp_all
  obtain r st' where rs: "send_chunks cb (int (length d)) ?st = (r, st')"
    by (cases "send_chunks cb (int (length d)) ?st")
  with c have "r = None" by simp
  with assms(1) s1 rs c show ?thesis
    by (simp add: send_file_def Let_def)
qed

lemma flet_send_file_ok:
  assumes "files file_path = Some d"
    and "accepts (max BUFFER_SIZE (length (header_line (basename file_path) (int (length d))))) plan0"
  shows "fst (flet_send_file now client_info files file_path plan0) = True \<and>
         fst (snd (flet_send_file now client_info files file_path plan0))
           = \<lparr>t_timestamp = now, t_file = basename file_path, t_size = int (length d),
              t_client = client_info, t_status = ''Complete''\<rparr> \<and>
         wire (snd (snd (flet_send_file now client_info files file_path plan0)))
           = header_line (basename file_path) (int (length d)) @ d \<and>
         sent_bytes (snd (snd (flet_send_file now client_info files file_path plan0))) = length d \<and>
         progress_calls (snd (snd (flet_send_file now client_info files file_path plan0))) = []"
proof -
  let ?h = "header_line (basename file_path) (int (length d))"
  have "length ?h \<le> max BUFFER_SIZE (length ?h)" by simp
  from send_ok [OF assms(2) this] obtain plan1 where
    s1: "send ?h plan0 = (None, ?h, plan1)" and ac: "accepts (max BUFFER_SIZE (length ?h)) plan1"
    by blast
  from accepts_mono [OF ac, of BUFFER_SIZE] have ac': "accepts BUFFER_SIZE plan1" by simp
  let ?st = "\<lparr>unread = d, sent_bytes = 0, wire = ?h, plan = plan1, progress_calls = []\<rparr>"
  from flet_send_chunks_ok [of ?st "int (length d)"] ac'
  have c: "fst (flet_send_chunks (int (length d)) ?st) = None"
    "wire (snd (flet_send_chunks (int (length d)) ?st)) = ?h @ d"
    "sent_bytes (snd (flet_send_chunks (int (length d)) ?st)) = length d"
    "progress_calls (snd (flet_send_chunks (int (length d)) ?st)) = []"
    by simp_all
  obtain r st' where rs: "flet_send_chunks (int (length d)) ?st = (r, st')"
    by (cases "flet_send_chunks (int (length d)) ?st")
  with c have "r = None" by simp
  with assms(1) s1 rs c show ?thesis
    by (simp add: flet_send_file_def Let_def flet_send_status_def)
qed

lemma two_fields_roundtrip:
  assumes "valid_utf8 name" "BAR \<notin> set name" "NL \<notin> set name" "0 \<le> n"
  shows "flet_decode_header (header_line name n @ rest) = Inr (name, n, rest)"
  using header_fields [OF assms] py_int_str_int [OF assms(4)]
  by (simp add: flet_decode_header_def decode_def flet_parse_header_def)

lemma receive_file_decode_error:
  assumes "connected c" "socket c = Some sk"
    and "recv_header 0 [] None (inbound sk) = (Inr (hdr, le), s1)"
    and "decode_header hdr = Inl e"
  shows "fst (receive_file dial now cb c files sp) = Inl e"
proof -
  let ?st0 = "\<lparr>cl = c, fs = files, save_path = sp, last_exception = None, cb_calls = []\<rparr>"
  from assms(3,4)
  have b: "receive_body now cb 0 sk ?st0
             = (Raised e, ?st0\<lparr>cl := set_inbound c sk s1, last_exception := le\<rparr>)"
    by (simp add: receive_body_def)
  show ?thesis
    unfolding receive_file_unfold [OF assms(1,2)] b by simp
qed

lemma receive_file_body:
  assumes "connected c" "socket c = Some sk"
  shows "fs (snd (receive_file dial now cb c files sp))
           = fs (snd (receive_body now cb 0 sk
                  \<lparr>cl = c, fs = files, save_path = sp, last_exception = None, cb_calls = []\<rparr>))"
    and "cb_calls (snd (receive_file dial now cb c files sp))
           = cb_calls (snd (receive_body now cb 0 sk
                  \<lparr>cl = c, fs = files, save_path = sp, last_exception = None, cb_calls = []\<rparr>))"
    and "(fst (receive_file dial now cb c files sp) = Inr True)
           = (fst (receive_body now cb 0 sk
                  \<lparr>cl = c, fs = files, save_path = sp, last_exception = None, cb_calls = []\<rparr>)
              = Returned True)"
proof -
  let ?st0 = "\<lparr>cl = c, fs = files, save_path = sp, last_exception = None, cb_calls = []\<rparr>"
  obtain out st where b: "receive_body now cb 0 sk ?st0 = (out, st)"
    by (cases "receive_body now cb 0 sk ?st0")
  note u = receive_file_unfold [OF assms, of dial now cb files sp]
  show "fs (snd (receive_file dial now cb c files sp)) = fs (snd (receive_body now cb 0 sk ?st0))"
    unfolding u b by (cases out) (simp_all add: append_history_def split: option.split)
  show "cb_calls (snd (receive_file dial now cb c files sp))
          = cb_calls (snd (receive_body now cb 0 sk ?st0))"
    unfolding u b by (cases out) (simp_all add: append_history_def split: option.split)
  show "(fst (receive_file dial now cb c files sp) = Inr True)
          = (fst (receive_body now cb 0 sk ?st0) = Returned True)"
    unfolding u b by (cases out) (simp_all split: option.split)
qed

lemma flet_receive_file_body:
  assumes "connected c" "socket c = Some sk"
  shows "fs (snd (flet_receive_file now cb c files sp))
           = fs (snd (flet_receive_try now cb sk
                  \<lparr>cl = c, fs = files, save_path = sp, last_exception = None, cb_calls = []\<rparr>))"
    and "cb_calls (snd (flet_receive_file now cb c files sp))
           = cb_calls (snd (flet_receive_try now cb sk
                  \<lparr>cl = c, fs = files, save_path = sp, last_exception = None, cb_calls = []\<rparr>))"
    and "fst (flet_receive_file now cb c files sp)
           = fst (flet_receive_try now cb sk
                  \<lparr>cl = c, fs = files, save_path = sp, last_exception = None, cb_calls = []\<rparr>)"
proof -
  let ?st0 = "\<lparr>cl = c, fs = files, save_path = sp, last_exception = None, cb_calls = []\<rparr>"
  obtain out st where b: "flet_receive_try now cb sk ?st0 = (out, st)"
    by (cases "flet_receive_try now cb sk ?st0")
  note u = flet_receive_file_unfold [OF assms, of now cb files sp]
  show "fs (snd (flet_receive_file now cb c files sp)) = fs (snd (flet_receive_try now cb sk ?st0))"
    unfolding u b by (cases out) (simp_all add: append_history_def)
  show "cb_calls (snd (flet_receive_file now cb c files sp))
          = cb_calls (snd (flet_receive_try now cb sk ?st0))"
    unfolding u b by (cases out) (simp_all add: append_history_def)
  show "fst (flet_receive_file now cb c files sp) = fst (flet_receive_try now cb sk ?st0)"
    unfolding u b by (cases out) simp_all
qed

lemma receive_file_leftover:
  assumes c: "connected c" "socket c = Some sk"
    and h: "recv_header 0 [] None (inbound sk) = (Inr (hdr, le), s1)"
    and d: "decode_header hdr = Inr (name, n, ext, rem)"
  shows "\<exists>rest. fs (snd (receive_file dial now cb c files sp)) (destination sp ext)
                  = Some (rem @ rest) \<and>
          (fst (receive_file dial now cb c files sp) = Inr True \<longrightarrow> cb \<longrightarrow>
             last (cb_calls (snd (receive_file dial now cb c files sp)))
               = (Hundred, length (rem @ rest), n))"
proof -
  let ?st0 = "\<lparr>cl = c, fs = files, save_path = sp, last_exception = None, cb_calls = []\<rparr>"
  from h have h0: "recv_header 0 [] (last_exception ?st0) (inbound sk) = (Inr (hdr, le), s1)"
    by simp
  have wb: "(0::nat) = 0 \<or> fs ?st0 (destination (save_path ?st0) ext) = None" by simp
  from receive_body_leftover [OF h0 d wb, of now cb]
  show ?thesis
    unfolding receive_file_body [OF c] by simp
qed

lemma flet_receive_file_leftover:
  assumes c: "connected c" "socket c = Some sk"
    and h: "flet_recv_header [] (inbound sk) = (Inr hdr, s1)"
    and d: "flet_decode_header hdr = Inr (name, n, rem)"
  shows "\<exists>rest. fs (snd (flet_receive_file now cb c files sp)) sp = Some (rem @ rest) \<and>
          (fst (flet_receive_file now cb c files sp) = Inr True \<longrightarrow> cb \<longrightarrow>
             last (cb_calls (snd (flet_receive_file now cb c files sp)))
               = (Hundred, length (rem @ rest), n))"
proof -
  let ?st0 = "\<lparr>cl = c, fs = files, save_path = sp, last_exception = None, cb_calls = []\<rparr>"
  from flet_receive_try_leftover [OF h d, of now cb ?st0]
  show ?thesis
    unfolding flet_receive_file_body [OF c] by simp
qed

lemma retry_reads_nothing:
  assumes "connected (cl st)" "0 < attempt"
  shows "fs (snd (attempt_pass dial now cb attempt st)) = fs st"
    and "socket (cl (snd (attempt_pass dial now cb attempt st))) = socket (cl st)"
  using assms
  by (auto simp: attempt_pass_def receive_attempt_def connect_def split: option.split)



section \<open>The header round trip\<close>

text \<open>
  C3. The claim is that the header line a sender writes, decoded by a receiver, gives
  back the name and the size (and the extension). Both senders write two fields,
  \<open>name|size\<close> and a newline. The receiver of \<open>file_client_new\<close> unpacks three
  fields (line 96) and so rejects every such line (lemma \<open>three_fields_reject\<close>), while
  the comment at line 73 speaks of name and size and the receiver of \<open>flet_client\<close>
  decodes the line to the same name and size (lemma \<open>two_fields_roundtrip\<close>). Here for
  the file \<open>a.txt\<close> with the content \<open>hello\<close>: what \<open>send_file\<close> puts on the wire,
  what the two decoders make of it, and the call of \<open>receive_file\<close> that reads it,
  which raises \<open>ValueError\<close>.
\<close>

theorem sender_header_rejected:
  "wire (snd (snd (send_file ''T'' False ''10.0.0.9:4000'' [''/srv/a.txt'' \<mapsto> ''hello'']
          ''/srv/a.txt'' [])))
     = ''a.txt|5'' @ [NL] @ ''hello'' \<and>
   decode_header (''a.txt|5'' @ [NL] @ ''hello'')
     = Inl (ValueError ''Invalid file header format'') \<and>
   fst (receive_file (\<lambda>h p. None) ''T'' False
          \<lparr>socket = Some \<lparr>sockname = (''10.0.0.1'', 50000),
                           inbound = [Data (''a.txt|5'' @ [NL] @ ''hello'') False]\<rparr>,
           connected = True, download_history = []\<rparr> Map.empty ''out'')
     = Inl (ValueError ''Invalid file header format'') \<and>
   flet_decode_header (''a.txt|5'' @ [NL] @ ''hello'') = Inr (''a.txt'', 5, ''hello'')"
proof -
  let ?sk = "\<lparr>sockname = (''10.0.0.1'', 50000),
              inbound = [Data (''a.txt|5'' @ [NL] @ ''hello'') False]\<rparr>"
  let ?c = "\<lparr>socket = Some ?sk, connected = True, download_history = []\<rparr>"
  have hl: "header_line (basename ''/srv/a.txt'') (int (length ''hello'')) = ''a.txt|5'' @ [NL]"
    by code_simp
  have f: "[''/srv/a.txt'' \<mapsto> ''hello''] ''/srv/a.txt'' = Some ''hello''" by simp
  have n: "no_send_fail []" by simp
  have w: "wire (snd (snd (send_file ''T'' False ''10.0.0.9:4000'' [''/srv/a.txt'' \<mapsto> ''hello'']
          ''/srv/a.txt'' [])))
     = ''a.txt|5'' @ [NL] @ ''hello''"
    using send_file_ok [of "[''/srv/a.txt'' \<mapsto> ''hello'']" "''/srv/a.txt''" "''hello''" "[]"
                           "''T''" False "''10.0.0.9:4000''"] f n
    unfolding hl by simp
  have d: "decode_header (''a.txt|5'' @ [NL] @ ''hello'')
             = Inl (ValueError ''Invalid file header format'')"
    by code_simp
  have d': "flet_decode_header (''a.txt|5'' @ [NL] @ ''hello'') = Inr (''a.txt'', 5, ''hello'')"
    by code_simp
  have h: "recv_header 0 [] None (inbound ?sk)
             = (Inr (''a.txt|5'' @ [NL] @ ''hello'', None), [])"
    unfolding sock.simps
    by (rule recv_header_first) (simp_all add: BUFFER_SIZE_def)
  have c1: "connected ?c" by simp
  have c2: "socket ?c = Some ?sk" by simp
  have r: "fst (receive_file (\<lambda>h p. None) ''T'' False ?c Map.empty ''out'')
             = Inl (ValueError ''Invalid file header format'')"
    by (rule receive_file_decode_error [OF c1 c2 h d])
  show ?thesis
    using w d r d' by blast
qed

section \<open>The invariant of the receive loops\<close>

text \<open>
  C10. In both receivers, when \<open>received_bytes \<le> file_size\<close> holds before the loop (the
  bytes left over from the header do not exceed the declared size), it holds after every
  pass: a pass that goes on has read a chunk of at least one and at most
  \<open>min(BUFFER_SIZE, file_size - received_bytes)\<close> bytes, has written exactly that chunk
  and has added exactly its length to \<open>received_bytes\<close>. The loop does nothing once
  \<open>received_bytes \<ge> file_size\<close>, it ends with \<open>received_bytes \<le> file_size\<close>, and so the
  test \<open>received_bytes >= file_size\<close> under which \<open>Complete\<close> is recorded holds only when
  \<open>received_bytes = file_size\<close>.
\<close>

theorem receive_loop_invariant:
  assumes "int (received_bytes st) \<le> file_size"
  shows
    "(\<forall>st'. payload_step cb attempt file_size st = Continue st' \<longrightarrow>
        (\<exists>chunk. chunk \<noteq> [] \<and>
           length chunk \<le> nat (min (int BUFFER_SIZE) (file_size - int (received_bytes st))) \<and>
           content st' = content st @ chunk \<and>
           received_bytes st' = received_bytes st + length chunk) \<and>
        int (received_bytes st') \<le> file_size) \<and>
     (\<forall>st'. flet_payload_step cb file_size st = Continue st' \<longrightarrow>
        (\<exists>chunk. chunk \<noteq> [] \<and>
           length chunk \<le> nat (min (int BUFFER_SIZE) (file_size - int (received_bytes st))) \<and>
           content st' = content st @ chunk \<and>
           received_bytes st' = received_bytes st + length chunk) \<and>
        int (received_bytes st') \<le> file_size) \<and>
     (file_size \<le> int (received_bytes st) \<longrightarrow>
        recv_payload cb attempt file_size st = (None, st) \<and>
        flet_recv_payload cb file_size st = (None, st)) \<and>
     int (received_bytes (snd (recv_payload cb attempt file_size st))) \<le> file_size \<and>
     int (received_bytes (snd (flet_recv_payload cb file_size st))) \<le> file_size \<and>
     (file_size \<le> int (received_bytes (snd (recv_payload cb attempt file_size st))) \<longrightarrow>
        int (received_bytes (snd (recv_payload cb attempt file_size st))) = file_size) \<and>
     (file_size \<le> int (received_bytes (snd (flet_recv_payload cb file_size st))) \<longrightarrow>
        int (received_bytes (snd (flet_recv_payload cb file_size st))) = file_size)"
proof -
  have a: "\<forall>st'. payload_step cb attempt file_size st = Continue st' \<longrightarrow>
        (\<exists>chunk. chunk \<noteq> [] \<and>
           length chunk \<le> nat (min (int BUFFER_SIZE) (file_size - int (received_bytes st))) \<and>
           content st' = content st @ chunk \<and>
           received_bytes st' = received_bytes st + length chunk) \<and>
        int (received_bytes st') \<le> file_size"
  proof (intro allI impI)
    fix st' assume c: "payload_step cb attempt file_size st = Continue st'"
    from payload_step_Continue [OF c] obtain chunk where
      k: "chunk \<noteq> []"
         "length chunk \<le> nat (min (int BUFFER_SIZE) (file_size - int (received_bytes st)))"
         "content st' = content st @ chunk"
         "received_bytes st' = received_bytes st + length chunk"
      by blast
    from step_stays_below [OF k(1) k(2)] k(4) have "int (received_bytes st') \<le> file_size" by simp
    with k show "(\<exists>chunk. chunk \<noteq> [] \<and>
           length chunk \<le> nat (min (int BUFFER_SIZE) (file_size - int (received_bytes st))) \<and>
           content st' = content st @ chunk \<and>
           received_bytes st' = received_bytes st + length chunk) \<and>
        int (received_bytes st') \<le> file_size" by blast
  qed
  have b: "\<forall>st'. flet_payload_step cb file_size st = Continue st' \<longrightarrow>
        (\<exists>chunk. chunk \<noteq> [] \<and>
           length chunk \<le> nat (min (int BUFFER_SIZE) (file_size - int (received_bytes st))) \<and>
           content st' = content st @ chunk \<and>
           received_bytes st' = received_bytes st + length chunk) \<and>
        int (received_bytes st') \<le> file_size"
  proof (intro allI impI)
    fix st' assume c: "flet_payload_step cb file_size st = Continue st'"
    from flet_payload_step_Continue [OF c] obtain chunk where
      k: "chunk \<noteq> []"
         "length chunk \<le> nat (min (int BUFFER_SIZE) (file_size - int (received_bytes st)))"
         "content st' = content st @ chunk"
         "received_bytes st' = received_bytes st + length chunk"
      by blast
    from step_stays_below [OF k(1) k(2)] k(4) have "int (received_bytes st') \<le> file_size" by simp
    with k show "(\<exists>chunk. chunk \<noteq> [] \<and>
           length chunk \<le> nat (min (int BUFFER_SIZE) (file_size - int (received_bytes st))) \<and>
           content st' = content st @ chunk \<and>
           received_bytes st' = received_bytes st + length chunk) \<and>
        int (received_bytes st') \<le> file_size" by blast
  qed
  have c: "file_size \<le> int (received_bytes st) \<longrightarrow>
        recv_payload cb attempt file_size st = (None, st) \<and>
        flet_recv_payload cb file_size st = (None, st)"
    by (simp add: recv_payload.simps [of cb attempt file_size st]
                  flet_recv_payload.simps [of cb file_size st])
  note d = recv_payload_bound [OF assms, of cb attempt]
  note e = flet_recv_payload_bound [OF assms, of cb]
  from a b c d e show ?thesis by simp
qed

theorem receive_loop_invariant_witness:
  "int (received_bytes \<lparr>received_bytes = 2, content = ''he'', stream = [Data ''llo'' False],
                        last_exc = None, calls = []\<rparr>) \<le> 5 \<and>
   payload_step False 0 5 \<lparr>received_bytes = 2, content = ''he'', stream = [Data ''llo'' False],
                        last_exc = None, calls = []\<rparr>
     = Continue \<lparr>received_bytes = 5, content = ''hello'', stream = [],
                        last_exc = None, calls = []\<rparr> \<and>
   int (received_bytes (snd (recv_payload False 0 5
         \<lparr>received_bytes = 2, content = ''he'', stream = [Data ''llo'' False],
          last_exc = None, calls = []\<rparr>))) = 5 \<and>
   int (received_bytes (snd (flet_recv_payload False 5
         \<lparr>received_bytes = 2, content = ''he'', stream = [Data ''llo'' False],
          last_exc = None, calls = []\<rparr>))) = 5"
proof -
  let ?st = "\<lparr>received_bytes = 2, content = ''he'', stream = [Data ''llo'' False],
              last_exc = None, calls = []\<rparr>"
  have h: "int (received_bytes ?st) \<le> 5" by simp
  have s: "payload_step False 0 5 ?st
             = Continue \<lparr>received_bytes = 5, content = ''hello'', stream = [],
                        last_exc = None, calls = []\<rparr>"
    by (simp add: payload_step_def BUFFER_SIZE_def)
  have r1: "5 \<le> int (received_bytes (snd (recv_payload False 0 5 ?st)))"
    by (simp add: recv_payload.simps payload_step_def BUFFER_SIZE_def)
  have r2: "5 \<le> int (received_bytes (snd (flet_recv_payload False 5 ?st)))"
    by (simp add: flet_recv_payload.simps flet_payload_step_def BUFFER_SIZE_def)
  from receive_loop_invariant [OF h, of False 0] h s r1 r2 show ?thesis
    by simp
qed

section \<open>Connecting twice\<close>

text \<open>
  C9. Calling \<open>connect(host, port)\<close> on a client that is already connected returns
  \<open>False\<close> and leaves the whole client object as it was: the socket, the connected
  flag and the history are unchanged, and the network is not consulted (the result is
  the same for every \<open>dial\<close>).
\<close>

theorem connect_when_connected:
  "connected c \<Longrightarrow>
     connect dial c host port = (False, c) \<and> connect dial c host port = connect dial' c host port"
  by (simp add: connect_def)

theorem connect_when_connected_witness:
  "connect (\<lambda>h p. Some \<lparr>sockname = (''10.0.0.2'', 40000), inbound = []\<rparr>)
       \<lparr>socket = Some \<lparr>sockname = (''10.0.0.1'', 50000), inbound = [Data ''x'' False]\<rparr>,
        connected = True, download_history = []\<rparr> ''127.0.0.1'' 12345
     = (False,
        \<lparr>socket = Some \<lparr>sockname = (''10.0.0.1'', 50000), inbound = [Data ''x'' False]\<rparr>,
         connected = True, download_history = []\<rparr>)"
  using connect_when_connected
    [of "\<lparr>socket = Some \<lparr>sockname = (''10.0.0.1'', 50000), inbound = [Data ''x'' False]\<rparr>,
          connected = True, download_history = []\<rparr>"
        "\<lambda>h p. Some \<lparr>sockname = (''10.0.0.2'', 40000), inbound = []\<rparr>" "''127.0.0.1''" 12345]
  by simp

section \<open>One history record for each call\<close>





section \<open>A file of size zero\<close>

text \<open>
  C8. When the header declares size 0, both receivers return \<open>True\<close> without reading
  from the socket again (the socket is left as it was after the header), call the
  progress callback, when there is one, exactly once and with 100, and append exactly
  one record to the history: the one with status \<open>Complete\<close>, size 0, the name from
  the header, and the path the file was saved under. The percentage is never computed
  with \<open>file_size = 0\<close>: neither payload loop raises \<open>ZeroDivisionError\<close>, for any
  size and any stream.
\<close>

theorem zero_size_completes:
  "(connected c \<and> socket c = Some sk \<and>
    recv_header 0 [] None (inbound sk) = (Inr (hdr, le), s1) \<and>
    decode_header hdr = Inr (name, 0, ext, rem) \<longrightarrow>
      fst (receive_file dial now cb c files sp) = Inr True \<and>
      cb_calls (snd (receive_file dial now cb c files sp))
        = (if cb then [(Hundred, length rem, 0)] else []) \<and>
      download_history (cl (snd (receive_file dial now cb c files sp)))
        = download_history c @
            [\<lparr>timestamp = now, file_name = basename (destination sp ext), original_name = name,
              rec_size = 0, path = destination sp ext, status = ''Complete''\<rparr>] \<and>
      socket (cl (snd (receive_file dial now cb c files sp))) = Some (sk\<lparr>inbound := s1\<rparr>)) \<and>
   (connected c \<and> socket c = Some sk \<and>
    flet_recv_header [] (inbound sk) = (Inr hdr', s1') \<and>
    flet_decode_header hdr' = Inr (name', 0, rem') \<longrightarrow>
      fst (flet_receive_file now cb c files sp) = Inr True \<and>
      cb_calls (snd (flet_receive_file now cb c files sp))
        = (if cb then [(Hundred, length rem', 0)] else []) \<and>
      download_history (cl (snd (flet_receive_file now cb c files sp)))
        = download_history c @
            [\<lparr>timestamp = now, file_name = basename sp, original_name = name',
              rec_size = 0, path = sp, status = ''Complete''\<rparr>] \<and>
      socket (cl (snd (flet_receive_file now cb c files sp))) = Some (sk\<lparr>inbound := s1'\<rparr>)) \<and>
   fst (recv_payload cb attempt file_size st) \<noteq> Some (ZeroDivisionError m) \<and>
   fst (flet_recv_payload cb file_size st) \<noteq> Some (ZeroDivisionError m)"
proof (intro conjI impI)
  assume a: "connected c \<and> socket c = Some sk \<and>
    recv_header 0 [] None (inbound sk) = (Inr (hdr, le), s1) \<and>
    decode_header hdr = Inr (name, 0, ext, rem)"
  let ?st0 = "\<lparr>cl = c, fs = files, save_path = sp, last_exception = None, cb_calls = []\<rparr>"
  from a have h: "recv_header 0 [] (last_exception ?st0) (inbound sk) = (Inr (hdr, le), s1)" by simp
  from a have d: "decode_header hdr = Inr (name, 0, ext, rem)" by simp
  from a have cs: "connected c" "socket c = Some sk" by simp_all
  note z = receive_body_zero [OF h d, of now cb]
  note u = receive_file_unfold [OF cs, of dial now cb files sp]
  show "fst (receive_file dial now cb c files sp) = Inr True"
    using u z by simp
  show "cb_calls (snd (receive_file dial now cb c files sp))
        = (if cb then [(Hundred, length rem, 0)] else [])"
    using u z by (simp add: append_history_def)
  show "download_history (cl (snd (receive_file dial now cb c files sp)))
        = download_history c @
            [\<lparr>timestamp = now, file_name = basename (destination sp ext), original_name = name,
              rec_size = 0, path = destination sp ext, status = ''Complete''\<rparr>]"
    using u z by (simp add: append_history_def set_inbound_def complete_record_def)
  show "socket (cl (snd (receive_file dial now cb c files sp))) = Some (sk\<lparr>inbound := s1\<rparr>)"
    using u z by (simp add: append_history_def set_inbound_def)
next
  assume a: "connected c \<and> socket c = Some sk \<and>
    flet_recv_header [] (inbound sk) = (Inr hdr', s1') \<and>
    flet_decode_header hdr' = Inr (name', 0, rem')"
  let ?st0 = "\<lparr>cl = c, fs = files, save_path = sp, last_exception = None, cb_calls = []\<rparr>"
  from a have h: "flet_recv_header [] (inbound sk) = (Inr hdr', s1')" by simp
  from a have d: "flet_decode_header hdr' = Inr (name', 0, rem')" by simp
  from a have cs: "connected c" "socket c = Some sk" by simp_all
  note z = flet_receive_try_zero [OF h d, of now cb ?st0]
  note u = flet_receive_file_unfold [OF cs, of now cb files sp]
  show "fst (flet_receive_file now cb c files sp) = Inr True"
    using u z by simp
  show "cb_calls (snd (flet_receive_file now cb c files sp))
        = (if cb then [(Hundred, length rem', 0)] else [])"
    using u z by (simp add: append_history_def)
  show "download_history (cl (snd (flet_receive_file now cb c files sp)))
        = download_history c @
            [\<lparr>timestamp = now, file_name = basename sp, original_name = name',
              rec_size = 0, path = sp, status = ''Complete''\<rparr>]"
    using u z by (simp add: append_history_def set_inbound_def)
  show "socket (cl (snd (flet_receive_file now cb c files sp))) = Some (sk\<lparr>inbound := s1'\<rparr>)"
    using u z by (simp add: append_history_def set_inbound_def)
next
  show "fst (recv_payload cb attempt file_size st) \<noteq> Some (ZeroDivisionError m)"
    by (rule recv_payload_no_zerodiv)
  show "fst (flet_recv_payload cb file_size st) \<noteq> Some (ZeroDivisionError m)"
    using flet_recv_payload_raises [of cb file_size st "ZeroDivisionError m"] by auto
qed


theorem zero_size_completes_witness:
  "connected \<lparr>socket = Some \<lparr>sockname = (''10.0.0.1'', 50000),
                               inbound = [Data (''a.txt|0|.txt'' @ [NL]) False, Data ''llo'' True]\<rparr>,
              connected = True, download_history = []\<rparr> \<and>
   recv_header 0 [] None [Data (''a.txt|0|.txt'' @ [NL]) False, Data ''llo'' True]
     = (Inr (''a.txt|0|.txt'' @ [NL], None), [Data ''llo'' True]) \<and>
   decode_header (''a.txt|0|.txt'' @ [NL]) = Inr (''a.txt'', 0, ''.txt'', []) \<and>
   fst (receive_file (\<lambda>h p. None) ''T'' True
          \<lparr>socket = Some \<lparr>sockname = (''10.0.0.1'', 50000),
                           inbound = [Data (''a.txt|0|.txt'' @ [NL]) False, Data ''llo'' True]\<rparr>,
           connected = True, download_history = []\<rparr> Map.empty ''out'') = Inr True \<and>
   cb_calls (snd (receive_file (\<lambda>h p. None) ''T'' True
          \<lparr>socket = Some \<lparr>sockname = (''10.0.0.1'', 50000),
                           inbound = [Data (''a.txt|0|.txt'' @ [NL]) False, Data ''llo'' True]\<rparr>,
           connected = True, download_history = []\<rparr> Map.empty ''out'')) = [(Hundred, 0, 0)] \<and>
   download_history (cl (snd (receive_file (\<lambda>h p. None) ''T'' True
          \<lparr>socket = Some \<lparr>sockname = (''10.0.0.1'', 50000),
                           inbound = [Data (''a.txt|0|.txt'' @ [NL]) False, Data ''llo'' True]\<rparr>,
           connected = True, download_history = []\<rparr> Map.empty ''out'')))
     = [\<lparr>timestamp = ''T'', file_name = ''out.txt'', original_name = ''a.txt'',
         rec_size = 0, path = ''out.txt'', status = ''Complete''\<rparr>] \<and>
   flet_recv_header [] [Data (''a.txt|0'' @ [NL]) False, Data ''llo'' True]
     = (Inr (''a.txt|0'' @ [NL]), [Data ''llo'' True]) \<and>
   flet_decode_header (''a.txt|0'' @ [NL]) = Inr (''a.txt'', 0, []) \<and>
   fst (flet_receive_file ''T'' True
          \<lparr>socket = Some \<lparr>sockname = (''10.0.0.1'', 50000),
                           inbound = [Data (''a.txt|0'' @ [NL]) False, Data ''llo'' True]\<rparr>,
           connected = True, download_history = []\<rparr> Map.empty ''out'') = Inr True \<and>
   download_history (cl (snd (flet_receive_file ''T'' True
          \<lparr>socket = Some \<lparr>sockname = (''10.0.0.1'', 50000),
                           inbound = [Data (''a.txt|0'' @ [NL]) False, Data ''llo'' True]\<rparr>,
           connected = True, download_history = []\<rparr> Map.empty ''out'')))
     = [\<lparr>timestamp = ''T'', file_name = ''out'', original_name = ''a.txt'',
         rec_size = 0, path = ''out'', status = ''Complete''\<rparr>] \<and>
   socket (cl (snd (flet_receive_file ''T'' True
          \<lparr>socket = Some \<lparr>sockname = (''10.0.0.1'', 50000),
                           inbound = [Data (''a.txt|0'' @ [NL]) False, Data ''llo'' True]\<rparr>,
           connected = True, download_history = []\<rparr> Map.empty ''out'')))
     = Some \<lparr>sockname = (''10.0.0.1'', 50000), inbound = [Data ''llo'' True]\<rparr>"
proof -
  let ?sk = "\<lparr>sockname = (''10.0.0.1'', 50000),
              inbound = [Data (''a.txt|0|.txt'' @ [NL]) False, Data ''llo'' True]\<rparr>"
  let ?sk' = "\<lparr>sockname = (''10.0.0.1'', 50000),
               inbound = [Data (''a.txt|0'' @ [NL]) False, Data ''llo'' True]\<rparr>"
  have h: "recv_header 0 [] None [Data (''a.txt|0|.txt'' @ [NL]) False, Data ''llo'' True]
             = (Inr (''a.txt|0|.txt'' @ [NL], None), [Data ''llo'' True])"
    by (rule recv_header_first) (simp_all add: BUFFER_SIZE_def)
  have d: "decode_header (''a.txt|0|.txt'' @ [NL]) = Inr (''a.txt'', 0, ''.txt'', [])"
    by code_simp
  have h': "flet_recv_header [] [Data (''a.txt|0'' @ [NL]) False, Data ''llo'' True]
              = (Inr (''a.txt|0'' @ [NL]), [Data ''llo'' True])"
    by (rule flet_recv_header_first) (simp_all add: BUFFER_SIZE_def)
  have d': "flet_decode_header (''a.txt|0'' @ [NL]) = Inr (''a.txt'', 0, [])"
    by code_simp
  note a = zero_size_completes
      [of "\<lparr>socket = Some ?sk, connected = True, download_history = []\<rparr>" ?sk
          "''a.txt|0|.txt'' @ [NL]" None "[Data ''llo'' True]" "''a.txt''" "''.txt''" "[]"
          "\<lambda>h p. None" "''T''" True Map.empty "''out''"]
  note b = zero_size_completes
      [of "\<lparr>socket = Some ?sk', connected = True, download_history = []\<rparr>" ?sk'
          _ _ _ _ _ _ _ "''T''" True Map.empty "''out''"
          "''a.txt|0'' @ [NL]" "[Data ''llo'' True]" "''a.txt''" "[]"]
  have bn: "basename ''out.txt'' = ''out.txt''" "basename ''out'' = ''out''"
    by code_simp+
  show ?thesis
    using a b h d h' d' by (simp add: destination_out bn)
qed

section \<open>The peer closes before the declared size is reached\<close>

text \<open>
  C4 (as amended). Suppose the header was read and decoded, it declares \<open>n\<close> bytes, the
  socket then delivers fewer bytes than are missing and closes, without an error, and no
  retries remain. The receiver of \<open>flet_client\<close> never retries; for the receiver of
  \<open>file_client_new\<close> no retries remain when the peer cannot be reached again, so that
  the attempts that are left are used up without a connection. Then the record appended
  for the call is not \<open>Complete\<close>. The receiver of \<open>file_client_new\<close> fails: it raises
  \<open>ConnectionError\<close> with the text \<open>Connection lost during transfer\<close> and appends one
  record, with status \<open>Failed\<close> and that text. The receiver of \<open>flet_client\<close> does not
  fail: it returns \<open>True\<close> and appends one record whose status is
  \<open>Incomplete (k/n bytes)\<close> with \<open>k < n\<close>.
\<close>

theorem premature_close_outcome:
  "(connected c \<and> socket c = Some sk \<and>
    recv_header 0 [] None (inbound sk) = (Inr (hdr, le), s1) \<and>
    decode_header hdr = Inr (name, n, ext, rem) \<and>
    no_fail s1 \<and> int (length rem + length (data_bytes s1)) < n \<and>
    dial (fst (sockname sk)) (snd (sockname sk)) = None \<longrightarrow>
      fst (receive_file dial now cb c files sp)
        = Inl (ConnectionError ''Connection lost during transfer'') \<and>
      (\<exists>r. download_history (cl (snd (receive_file dial now cb c files sp)))
              = download_history c @ [r] \<and>
           status r = ''Failed: Connection lost during transfer'' \<and>
           status r \<noteq> ''Complete'')) \<and>
   (connected c \<and> socket c = Some sk \<and>
    flet_recv_header [] (inbound sk) = (Inr hdr', s1') \<and>
    flet_decode_header hdr' = Inr (name', n', rem') \<and>
    no_fail s1' \<and> int (length rem' + length (data_bytes s1')) < n' \<longrightarrow>
      fst (flet_receive_file now cb c files sp) = Inr True \<and>
      (\<exists>r k. download_history (cl (snd (flet_receive_file now cb c files sp)))
              = download_history c @ [r] \<and> int k < n' \<and>
           status r = ''Incomplete ('' @ str_nat k @ ''/'' @ str_int n' @ '' bytes)'' \<and>
           status r \<noteq> ''Complete''))"
proof -
  have "''Failed: Connection lost during transfer'' \<noteq> ''Complete''" by simp
  then show ?thesis
    using receive_file_premature [of c sk hdr le s1 name n ext rem dial now cb files sp]
          flet_receive_file_premature [of c sk hdr' s1' name' n' rem' now cb files sp]
    by metis
qed

theorem premature_close_outcome_witness:
  "connected \<lparr>socket = Some \<lparr>sockname = (''10.0.0.1'', 50000),
                 inbound = [Data (''a.txt|5|.txt'' @ [NL] @ ''he'') False, Data ''l'' False]\<rparr>,
              connected = True, download_history = []\<rparr> \<and>
   recv_header 0 [] None [Data (''a.txt|5|.txt'' @ [NL] @ ''he'') False, Data ''l'' False]
     = (Inr (''a.txt|5|.txt'' @ [NL] @ ''he'', None), [Data ''l'' False]) \<and>
   decode_header (''a.txt|5|.txt'' @ [NL] @ ''he'') = Inr (''a.txt'', 5, ''.txt'', ''he'') \<and>
   no_fail [Data ''l'' False] \<and>
   int (length ''he'' + length (data_bytes [Data ''l'' False])) < 5 \<and>
   (\<lambda>h p. None) ''10.0.0.1'' (50000 :: nat) = (None :: sock option) \<and>
   fst (receive_file (\<lambda>h p. None) ''T'' True
          \<lparr>socket = Some \<lparr>sockname = (''10.0.0.1'', 50000),
                 inbound = [Data (''a.txt|5|.txt'' @ [NL] @ ''he'') False, Data ''l'' False]\<rparr>,
           connected = True, download_history = []\<rparr> Map.empty ''out'')
     = Inl (ConnectionError ''Connection lost during transfer'') \<and>
   (\<exists>r. download_history (cl (snd (receive_file (\<lambda>h p. None) ''T'' True
          \<lparr>socket = Some \<lparr>sockname = (''10.0.0.1'', 50000),
                 inbound = [Data (''a.txt|5|.txt'' @ [NL] @ ''he'') False, Data ''l'' False]\<rparr>,
           connected = True, download_history = []\<rparr> Map.empty ''out''))) = [r] \<and>
        status r = ''Failed: Connection lost during transfer'') \<and>
   flet_recv_header [] [Data (''a.txt|5'' @ [NL] @ ''he'') False, Data ''l'' False]
     = (Inr (''a.txt|5'' @ [NL] @ ''he''), [Data ''l'' False]) \<and>
   flet_decode_header (''a.txt|5'' @ [NL] @ ''he'') = Inr (''a.txt'', 5, ''he'') \<and>
   fst (flet_receive_file ''T'' True
          \<lparr>socket = Some \<lparr>sockname = (''10.0.0.1'', 50000),
                 inbound = [Data (''a.txt|5'' @ [NL] @ ''he'') False, Data ''l'' False]\<rparr>,
           connected = True, download_history = []\<rparr> Map.empty ''out'') = Inr True \<and>
   (\<exists>r k. download_history (cl (snd (flet_receive_file ''T'' True
          \<lparr>socket = Some \<lparr>sockname = (''10.0.0.1'', 50000),
                 inbound = [Data (''a.txt|5'' @ [NL] @ ''he'') False, Data ''l'' False]\<rparr>,
           connected = True, download_history = []\<rparr> Map.empty ''out''))) = [r] \<and>
        int k < 5 \<and>
        status r = ''Incomplete ('' @ str_nat k @ ''/'' @ str_int 5 @ '' bytes)'')"
proof -
  let ?sk = "\<lparr>sockname = (''10.0.0.1'', 50000),
              inbound = [Data (''a.txt|5|.txt'' @ [NL] @ ''he'') False, Data ''l'' False]\<rparr>"
  let ?sk' = "\<lparr>sockname = (''10.0.0.1'', 50000),
               inbound = [Data (''a.txt|5'' @ [NL] @ ''he'') False, Data ''l'' False]\<rparr>"
  have h: "recv_header 0 [] None [Data (''a.txt|5|.txt'' @ [NL] @ ''he'') False, Data ''l'' False]
             = (Inr (''a.txt|5|.txt'' @ [NL] @ ''he'', None), [Data ''l'' False])"
    by (rule recv_header_first) (simp_all add: BUFFER_SIZE_def)
  have d: "decode_header (''a.txt|5|.txt'' @ [NL] @ ''he'') = Inr (''a.txt'', 5, ''.txt'', ''he'')"
    by code_simp
  have h': "flet_recv_header [] [Data (''a.txt|5'' @ [NL] @ ''he'') False, Data ''l'' False]
              = (Inr (''a.txt|5'' @ [NL] @ ''he''), [Data ''l'' False])"
    by (rule flet_recv_header_first) (simp_all add: BUFFER_SIZE_def)
  have d': "flet_decode_header (''a.txt|5'' @ [NL] @ ''he'') = Inr (''a.txt'', 5, ''he'')"
    by code_simp
  note a = premature_close_outcome
      [of "\<lparr>socket = Some ?sk, connected = True, download_history = []\<rparr>" ?sk
          "''a.txt|5|.txt'' @ [NL] @ ''he''" None "[Data ''l'' False]" "''a.txt''" 5 "''.txt''" "''he''"
          "\<lambda>h p. None" "''T''" True Map.empty "''out''"]
  note b = premature_close_outcome
      [of "\<lparr>socket = Some ?sk', connected = True, download_history = []\<rparr>" ?sk'
          _ _ _ _ _ _ _ _ "''T''" True Map.empty "''out''"
          "''a.txt|5'' @ [NL] @ ''he''" "[Data ''l'' False]" "''a.txt''" 5 "''he''"]
  have a': "fst (receive_file (\<lambda>h p. None) ''T'' True
                  \<lparr>socket = Some ?sk, connected = True, download_history = []\<rparr> Map.empty ''out'')
              = Inl (ConnectionError ''Connection lost during transfer'') \<and>
            (\<exists>r. download_history (cl (snd (receive_file (\<lambda>h p. None) ''T'' True
                  \<lparr>socket = Some ?sk, connected = True, download_history = []\<rparr> Map.empty ''out'')))
                   = [r] \<and>
                 status r = ''Failed: Connection lost during transfer'')"
    using a h d by (simp del: ex_simps) blast
  have b': "fst (flet_receive_file ''T'' True
                  \<lparr>socket = Some ?sk', connected = True, download_history = []\<rparr> Map.empty ''out'')
              = Inr True \<and>
            (\<exists>r k. download_history (cl (snd (flet_receive_file ''T'' True
                  \<lparr>socket = Some ?sk', connected = True, download_history = []\<rparr> Map.empty ''out'')))
                   = [r] \<and>
                 int k < 5 \<and>
                 status r = ''Incomplete ('' @ str_nat k @ ''/'' @ str_int 5 @ '' bytes)'')"
    using b h' d' by (simp del: ex_simps) blast
  show ?thesis
    using a' b' h d h' d' by simp
qed

text \<open>
  So a call of the \<open>flet_client\<close> receiver that got 3 of 5 bytes does not fail: it
  returns \<open>True\<close>.
\<close>

theorem premature_close_outcome_counterexample:
  "fst (flet_receive_file ''T'' True
          \<lparr>socket = Some \<lparr>sockname = (''10.0.0.1'', 50000),
                 inbound = [Data (''a.txt|5'' @ [NL] @ ''he'') False, Data ''l'' False]\<rparr>,
           connected = True, download_history = []\<rparr> Map.empty ''out'') = Inr True"
proof -
  have h': "flet_recv_header [] [Data (''a.txt|5'' @ [NL] @ ''he'') False, Data ''l'' False]
              = (Inr (''a.txt|5'' @ [NL] @ ''he''), [Data ''l'' False])"
    by (rule flet_recv_header_first) (simp_all add: BUFFER_SIZE_def)
  have d': "flet_decode_header (''a.txt|5'' @ [NL] @ ''he'') = Inr (''a.txt'', 5, ''he'')"
    by code_simp
  show ?thesis
    using flet_receive_file_premature
      [of "\<lparr>socket = Some \<lparr>sockname = (''10.0.0.1'', 50000),
                 inbound = [Data (''a.txt|5'' @ [NL] @ ''he'') False, Data ''l'' False]\<rparr>,
            connected = True, download_history = []\<rparr>"
          "\<lparr>sockname = (''10.0.0.1'', 50000),
                 inbound = [Data (''a.txt|5'' @ [NL] @ ''he'') False, Data ''l'' False]\<rparr>"
          "''a.txt|5'' @ [NL] @ ''he''" "[Data ''l'' False]" "''a.txt''" 5 "''he''" "''T''" True Map.empty "''out''"]
      h' d'
    by simp
qed

section \<open>A drop in the middle of the payload\<close>

text \<open>
  C1. The claim is that a transfer of 5 bytes that drops after 3 of them, with retries
  left, is resumed and ends with the 5 intended bytes in the destination file. The call
  below does not do that. The first attempt writes \<open>hel\<close>, the peer closes, and the
  error is stored. Each retry calls \<open>connect\<close>, which returns \<open>False\<close> because the
  client is still marked connected, and goes on to the next attempt without reading: the
  network, which here would deliver the whole file again, is never dialled and the
  socket stays the closed one. The call raises the stored error and the file stays at
  3 bytes.
\<close>

theorem retry_does_not_resume:
  "fst (receive_file
          (\<lambda>h p. Some \<lparr>sockname = (''10.0.0.1'', 50001),
                         inbound = [Data (''a.txt|5|.txt'' @ [NL] @ ''hello'') False]\<rparr>)
          ''T'' False
          \<lparr>socket = Some \<lparr>sockname = (''10.0.0.1'', 50000),
                 inbound = [Data (''a.txt|5|.txt'' @ [NL] @ ''he'') False, Data ''l'' False]\<rparr>,
           connected = True, download_history = []\<rparr> Map.empty ''out'')
     = Inl (ConnectionError ''Connection lost during transfer'') \<and>
   fs (snd (receive_file
          (\<lambda>h p. Some \<lparr>sockname = (''10.0.0.1'', 50001),
                         inbound = [Data (''a.txt|5|.txt'' @ [NL] @ ''hello'') False]\<rparr>)
          ''T'' False
          \<lparr>socket = Some \<lparr>sockname = (''10.0.0.1'', 50000),
                 inbound = [Data (''a.txt|5|.txt'' @ [NL] @ ''he'') False, Data ''l'' False]\<rparr>,
           connected = True, download_history = []\<rparr> Map.empty ''out'')) ''out.txt''
     = Some ''hel'' \<and>
   socket (cl (snd (receive_file
          (\<lambda>h p. Some \<lparr>sockname = (''10.0.0.1'', 50001),
                         inbound = [Data (''a.txt|5|.txt'' @ [NL] @ ''hello'') False]\<rparr>)
          ''T'' False
          \<lparr>socket = Some \<lparr>sockname = (''10.0.0.1'', 50000),
                 inbound = [Data (''a.txt|5|.txt'' @ [NL] @ ''he'') False, Data ''l'' False]\<rparr>,
           connected = True, download_history = []\<rparr> Map.empty ''out'')))
     = Some \<lparr>sockname = (''10.0.0.1'', 50000), inbound = []\<rparr>"
proof -
  let ?sk = "\<lparr>sockname = (''10.0.0.1'', 50000),
              inbound = [Data (''a.txt|5|.txt'' @ [NL] @ ''he'') False, Data ''l'' False]\<rparr>"
  let ?c = "\<lparr>socket = Some ?sk, connected = True, download_history = []\<rparr>"
  let ?st0 = "\<lparr>cl = ?c, fs = Map.empty, save_path = ''out'', last_exception = None, cb_calls = []\<rparr>"
  have h: "recv_header 0 [] None [Data (''a.txt|5|.txt'' @ [NL] @ ''he'') False, Data ''l'' False]
             = (Inr (''a.txt|5|.txt'' @ [NL] @ ''he'', None), [Data ''l'' False])"
    by (rule recv_header_first) (simp_all add: BUFFER_SIZE_def)
  have d: "decode_header (''a.txt|5|.txt'' @ [NL] @ ''he'') = Inr (''a.txt'', 5, ''.txt'', ''he'')"
    by code_simp
  have p: "recv_payload False 0 5
             \<lparr>received_bytes = Suc (Suc 0), content = ''he'', stream = [Data ''l'' False],
              last_exc = None, calls = []\<rparr>
           = (None, \<lparr>received_bytes = 3, content = ''hel'', stream = [],
                     last_exc = Some (ConnectionError ''Connection lost during transfer''),
                     calls = []\<rparr>)"
    by (simp add: recv_payload.simps payload_step_def on_socket_error_def BUFFER_SIZE_def
                  MAX_RETRIES_def)
  have b: "receive_body ''T'' False 0 ?sk ?st0
           = (Next, \<lparr>cl = \<lparr>socket = Some \<lparr>sockname = (''10.0.0.1'', 50000), inbound = []\<rparr>,
                           connected = True, download_history = []\<rparr>,
                     fs = [''out.txt'' \<mapsto> ''hel''], save_path = ''out.txt'',
                     last_exception = Some (ConnectionError ''Connection lost during transfer''),
                     cb_calls = []\<rparr>)"
    using h d by (simp add: receive_body_def Let_def destination_out initial_content_def p
                            set_inbound_def cong: if_cong)
  have u: "receive_file
          (\<lambda>h p. Some \<lparr>sockname = (''10.0.0.1'', 50001),
                         inbound = [Data (''a.txt|5|.txt'' @ [NL] @ ''hello'') False]\<rparr>)
          ''T'' False ?c Map.empty ''out''
        = (Inl (ConnectionError ''Connection lost during transfer''),
           append_history
             (failed_record ''T'' ''out.txt'' (ConnectionError ''Connection lost during transfer''))
             \<lparr>cl = \<lparr>socket = Some \<lparr>sockname = (''10.0.0.1'', 50000), inbound = []\<rparr>,
                           connected = True, download_history = []\<rparr>,
                     fs = [''out.txt'' \<mapsto> ''hel''], save_path = ''out.txt'',
                     last_exception = Some (ConnectionError ''Connection lost during transfer''),
                     cb_calls = []\<rparr>)"
  proof -
    have c1: "connected ?c" by simp
    have c2: "socket ?c = Some ?sk" by simp
    show ?thesis
      unfolding receive_file_unfold [OF c1 c2] b by simp
  qed
  show ?thesis
    unfolding u by (simp add: append_history_def)
qed

section \<open>The bytes that arrive with the header\<close>

text \<open>
  C5. The bytes that came with the header line in the same read are the first bytes of
  the destination file and they are counted, in every call of either receiver: when the
  header was read and decoded, the file is, at the end of the call, those bytes followed
  by what the payload loop read, and the last progress call of a call that returns
  \<open>True\<close> reports the length of the file as \<open>received_bytes\<close>. This covers the
  retry attempts: the header is read by the first attempt only, since a retry of a client
  that is connected reads nothing from the socket and leaves the files as they are, so
  that it has no such bytes to lose.
\<close>

theorem leftover_is_first_chunk:
  "(connected c \<and> socket c = Some sk \<and>
    recv_header 0 [] None (inbound sk) = (Inr (hdr, le), s1) \<and>
    decode_header hdr = Inr (name, n, ext, rem) \<longrightarrow>
      (\<exists>rest. fs (snd (receive_file dial now cb c files sp)) (destination sp ext)
                  = Some (rem @ rest) \<and>
          (fst (receive_file dial now cb c files sp) = Inr True \<longrightarrow> cb \<longrightarrow>
             last (cb_calls (snd (receive_file dial now cb c files sp)))
               = (Hundred, length (rem @ rest), n)))) \<and>
   (connected c \<and> socket c = Some sk \<and>
    flet_recv_header [] (inbound sk) = (Inr hdr', s1') \<and>
    flet_decode_header hdr' = Inr (name', n', rem') \<longrightarrow>
      (\<exists>rest. fs (snd (flet_receive_file now cb c files sp)) sp = Some (rem' @ rest) \<and>
          (fst (flet_receive_file now cb c files sp) = Inr True \<longrightarrow> cb \<longrightarrow>
             last (cb_calls (snd (flet_receive_file now cb c files sp)))
               = (Hundred, length (rem' @ rest), n')))) \<and>
   (connected (cl st) \<and> 0 < attempt \<longrightarrow>
      fs (snd (attempt_pass dial now cb attempt st)) = fs st \<and>
      socket (cl (snd (attempt_pass dial now cb attempt st))) = socket (cl st))"
  using receive_file_leftover [of c sk hdr le s1 name n ext rem dial now cb files sp]
        flet_receive_file_leftover [of c sk hdr' s1' name' n' rem' now cb files sp]
        retry_reads_nothing [of st attempt dial now cb]
  by blast

theorem leftover_is_first_chunk_witness:
  "connected \<lparr>socket = Some \<lparr>sockname = (''10.0.0.1'', 50000),
                 inbound = [Data (''a.txt|5|.txt'' @ [NL] @ ''he'') False, Data ''llo'' False]\<rparr>,
              connected = True, download_history = []\<rparr> \<and>
   recv_header 0 [] None [Data (''a.txt|5|.txt'' @ [NL] @ ''he'') False, Data ''llo'' False]
     = (Inr (''a.txt|5|.txt'' @ [NL] @ ''he'', None), [Data ''llo'' False]) \<and>
   decode_header (''a.txt|5|.txt'' @ [NL] @ ''he'') = Inr (''a.txt'', 5, ''.txt'', ''he'') \<and>
   (\<exists>rest. fs (snd (receive_file (\<lambda>h p. None) ''T'' True
                 \<lparr>socket = Some \<lparr>sockname = (''10.0.0.1'', 50000),
                    inbound = [Data (''a.txt|5|.txt'' @ [NL] @ ''he'') False, Data ''llo'' False]\<rparr>,
                  connected = True, download_history = []\<rparr> [''out.txt'' \<mapsto> ''XY''] ''out''))
              ''out.txt'' = Some (''he'' @ rest)) \<and>
   flet_recv_header [] [Data (''a.txt|5'' @ [NL] @ ''he'') False, Data ''llo'' False]
     = (Inr (''a.txt|5'' @ [NL] @ ''he''), [Data ''llo'' False]) \<and>
   flet_decode_header (''a.txt|5'' @ [NL] @ ''he'') = Inr (''a.txt'', 5, ''he'') \<and>
   (\<exists>rest. fs (snd (flet_receive_file ''T'' True
                 \<lparr>socket = Some \<lparr>sockname = (''10.0.0.1'', 50000),
                    inbound = [Data (''a.txt|5'' @ [NL] @ ''he'') False, Data ''llo'' False]\<rparr>,
                  connected = True, download_history = []\<rparr> [''out.txt'' \<mapsto> ''XY''] ''out.txt''))
              ''out.txt'' = Some (''he'' @ rest)) \<and>
   (0::nat) < 1 \<and>
   fs (snd (attempt_pass (\<lambda>h p. None) ''T'' True 1
              \<lparr>cl = \<lparr>socket = Some \<lparr>sockname = (''10.0.0.1'', 50000),
                                      inbound = [Data ''llo'' False]\<rparr>,
                      connected = True, download_history = []\<rparr>,
               fs = [''out.txt'' \<mapsto> ''XY''], save_path = ''out.txt'', last_exception = None,
               cb_calls = []\<rparr>)) = [''out.txt'' \<mapsto> ''XY'']"
proof -
  let ?sk = "\<lparr>sockname = (''10.0.0.1'', 50000),
              inbound = [Data (''a.txt|5|.txt'' @ [NL] @ ''he'') False, Data ''llo'' False]\<rparr>"
  let ?sk' = "\<lparr>sockname = (''10.0.0.1'', 50000),
               inbound = [Data (''a.txt|5'' @ [NL] @ ''he'') False, Data ''llo'' False]\<rparr>"
  let ?st = "\<lparr>cl = \<lparr>socket = Some \<lparr>sockname = (''10.0.0.1'', 50000),
                                      inbound = [Data ''llo'' False]\<rparr>,
                      connected = True, download_history = []\<rparr>,
               fs = [''out.txt'' \<mapsto> ''XY''], save_path = ''out.txt'', last_exception = None,
               cb_calls = []\<rparr>"
  have h: "recv_header 0 [] None [Data (''a.txt|5|.txt'' @ [NL] @ ''he'') False, Data ''llo'' False]
             = (Inr (''a.txt|5|.txt'' @ [NL] @ ''he'', None), [Data ''llo'' False])"
    by (rule recv_header_first) (simp_all add: BUFFER_SIZE_def)
  have d: "decode_header (''a.txt|5|.txt'' @ [NL] @ ''he'') = Inr (''a.txt'', 5, ''.txt'', ''he'')"
    by code_simp
  have h': "flet_recv_header [] [Data (''a.txt|5'' @ [NL] @ ''he'') False, Data ''llo'' False]
              = (Inr (''a.txt|5'' @ [NL] @ ''he''), [Data ''llo'' False])"
    by (rule flet_recv_header_first) (simp_all add: BUFFER_SIZE_def)
  have d': "flet_decode_header (''a.txt|5'' @ [NL] @ ''he'') = Inr (''a.txt'', 5, ''he'')"
    by code_simp
  note a = leftover_is_first_chunk
      [of "\<lparr>socket = Some ?sk, connected = True, download_history = []\<rparr>" ?sk
          "''a.txt|5|.txt'' @ [NL] @ ''he''" None "[Data ''llo'' False]"
          "''a.txt''" 5 "''.txt''" "''he''" "\<lambda>h p. None" "''T''" True
          "[''out.txt'' \<mapsto> ''XY'']" "''out''"]
  note b = leftover_is_first_chunk
      [of "\<lparr>socket = Some ?sk', connected = True, download_history = []\<rparr>" ?sk'
          _ _ _ _ _ _ _ "\<lambda>h p. None" "''T''" True "[''out.txt'' \<mapsto> ''XY'']" "''out.txt''"
          "''a.txt|5'' @ [NL] @ ''he''" "[Data ''llo'' False]" "''a.txt''" 5 "''he''" ?st 1]
  have a': "\<exists>rest. fs (snd (receive_file (\<lambda>h p. None) ''T'' True
                 \<lparr>socket = Some ?sk, connected = True, download_history = []\<rparr>
                 [''out.txt'' \<mapsto> ''XY''] ''out'')) ''out.txt'' = Some (''he'' @ rest)"
    using a h d by (simp add: destination_out del: ex_simps) blast
  have b': "\<exists>rest. fs (snd (flet_receive_file ''T'' True
                 \<lparr>socket = Some ?sk', connected = True, download_history = []\<rparr>
                 [''out.txt'' \<mapsto> ''XY''] ''out.txt'')) ''out.txt'' = Some (''he'' @ rest)"
    using b h' d' by (simp del: ex_simps) blast
  have c': "fs (snd (attempt_pass (\<lambda>h p. None) ''T'' True 1 ?st)) = [''out.txt'' \<mapsto> ''XY'']"
    using b by simp
  show ?thesis
    using h d h' d' a' b' c' by simp
qed

section \<open>The limit on the header\<close>

text \<open>
  C7 (as amended). In the receiver of \<open>file_client_new\<close>: when the socket delivers more
  than 1,024,000 bytes without an error and none of the first 1,024,000 is a newline,
  the header loop raises \<open>ValueError\<close> with the text \<open>File header too large, possibly
  invalid data\<close>, and so does the call of \<open>receive_file\<close>; and a buffer that the loop
  hands on is never longer than 1,024,000 bytes. The receiver of \<open>flet_client\<close> has no
  such limit.
\<close>

theorem oversized_header_rejected:
  "(clean s \<and> 1024000 < length (data_bytes s) \<and> NL \<notin> set (take 1024000 (data_bytes s)) \<longrightarrow>
      fst (recv_header attempt [] le s)
        = Inl (ValueError ''File header too large, possibly invalid data'') \<and>
      (connected c \<and> socket c = Some sk \<and> inbound sk = s \<longrightarrow>
         fst (receive_file dial now cb c files sp)
           = Inl (ValueError ''File header too large, possibly invalid data''))) \<and>
   (\<forall>h le' s'. recv_header attempt [] le s = (Inr (h, le'), s') \<longrightarrow> length h \<le> 1024000)"
proof (intro conjI impI allI)
  assume a: "clean s \<and> 1024000 < length (data_bytes s) \<and> NL \<notin> set (take 1024000 (data_bytes s))"
  then show "fst (recv_header attempt [] le s)
        = Inl (ValueError ''File header too large, possibly invalid data'')"
    using recv_header_too_large [of s "[]" attempt le] by simp
  assume b: "connected c \<and> socket c = Some sk \<and> inbound sk = s"
  from a have "fst (recv_header 0 [] None s)
        = Inl (ValueError ''File header too large, possibly invalid data'')"
    using recv_header_too_large [of s "[]" 0 None] by simp
  with b show "fst (receive_file dial now cb c files sp)
           = Inl (ValueError ''File header too large, possibly invalid data'')"
    using receive_file_header_error [of c sk _ dial now cb files sp] by simp
next
  fix h le' s'
  assume "recv_header attempt [] le s = (Inr (h, le'), s')"
  then show "length h \<le> 1024000"
    using recv_header_bounded [of "[]" attempt le s h le' s'] by simp
qed

theorem oversized_header_rejected_witness:
  "clean [Data (replicate 1024001 (CHR ''a'')) False] \<and>
   1024000 < length (data_bytes [Data (replicate 1024001 (CHR ''a'')) False]) \<and>
   NL \<notin> set (take 1024000 (data_bytes [Data (replicate 1024001 (CHR ''a'')) False])) \<and>
   fst (recv_header 0 [] None [Data (replicate 1024001 (CHR ''a'')) False])
     = Inl (ValueError ''File header too large, possibly invalid data'') \<and>
   fst (receive_file (\<lambda>h p. None) ''T'' False
          \<lparr>socket = Some \<lparr>sockname = (''10.0.0.1'', 50000),
                           inbound = [Data (replicate 1024001 (CHR ''a'')) False]\<rparr>,
           connected = True, download_history = []\<rparr> Map.empty ''out'')
     = Inl (ValueError ''File header too large, possibly invalid data'')"
proof -
  have 1: "clean [Data (replicate 1024001 (CHR ''a'')) False]" by simp
  have 2: "1024000 < length (data_bytes [Data (replicate 1024001 (CHR ''a'')) False])" by simp
  have 3: "NL \<notin> set (take 1024000 (data_bytes [Data (replicate 1024001 (CHR ''a'')) False]))"
    by (simp add: NL_def)
  from oversized_header_rejected
         [of "[Data (replicate 1024001 (CHR ''a'')) False]" 0 None
             "\<lparr>socket = Some \<lparr>sockname = (''10.0.0.1'', 50000),
                           inbound = [Data (replicate 1024001 (CHR ''a'')) False]\<rparr>,
               connected = True, download_history = []\<rparr>"
             "\<lparr>sockname = (''10.0.0.1'', 50000),
                           inbound = [Data (replicate 1024001 (CHR ''a'')) False]\<rparr>"
             "\<lambda>h p. None" "''T''" False Map.empty "''out''"]
       1 2 3
  show ?thesis by simp
qed

text \<open>
  The header loop of \<open>flet_client\<close> accepts a line of 1,024,001 bytes before the
  newline.
\<close>

theorem oversized_header_rejected_counterexample:
  "fst (flet_recv_header [] [Data (replicate 1024001 (CHR ''a'') @ [NL]) False])
     = Inr (replicate 1024001 (CHR ''a'') @ [NL])"
  using flet_recv_header_long [of "[]" "replicate 1024001 (CHR ''a'')" False]
  by (simp add: NL_def)

section \<open>What a sender transmits\<close>

text \<open>
  C6 (as amended). \<open>send_file\<close> of \<open>file_server_new\<close>, for a source file of
  \<open>size\<close> bytes and a socket on which no write raises: it writes the header line first,
  then the file in chunks of at most 4096 bytes, each with \<open>sendall\<close>, so that what
  goes over the wire is the header line followed by exactly the \<open>size\<close> bytes of the
  file; when a progress callback is given it is called after each chunk with the percentage
  of the bytes sent so far; the record says \<open>Complete\<close>; and the value returned is
  \<open>True\<close>, not a number of bytes. \<open>_send_file\<close> of \<open>flet_server\<close> has no progress
  callback and calls \<open>send\<close> once for each piece; when every such call takes the whole
  piece, it transmits the same bytes, records \<open>Complete\<close> and returns \<open>True\<close>.
\<close>

theorem send_file_transmits:
  "(files file_path = Some d \<and> no_send_fail plan0 \<longrightarrow>
      fst (send_file now cb peer files file_path plan0) = True \<and>
      fst (snd (send_file now cb peer files file_path plan0))
        = \<lparr>t_timestamp = now, t_file = basename file_path, t_size = int (length d),
           t_client = peer, t_status = ''Complete''\<rparr> \<and>
      wire (snd (snd (send_file now cb peer files file_path plan0)))
        = header_line (basename file_path) (int (length d)) @ d \<and>
      sent_bytes (snd (snd (send_file now cb peer files file_path plan0))) = length d \<and>
      progress_calls (snd (snd (send_file now cb peer files file_path plan0)))
        = (if cb then map (\<lambda>k. Percent k (int (length d))) (progress_marks 0 (length d))
           else [])) \<and>
   (files file_path = Some d \<and>
    accepts (max BUFFER_SIZE (length (header_line (basename file_path) (int (length d))))) plan0 \<longrightarrow>
      fst (flet_send_file now peer files file_path plan0) = True \<and>
      fst (snd (flet_send_file now peer files file_path plan0))
        = \<lparr>t_timestamp = now, t_file = basename file_path, t_size = int (length d),
           t_client = peer, t_status = ''Complete''\<rparr> \<and>
      wire (snd (snd (flet_send_file now peer files file_path plan0)))
        = header_line (basename file_path) (int (length d)) @ d \<and>
      sent_bytes (snd (snd (flet_send_file now peer files file_path plan0))) = length d \<and>
      progress_calls (snd (snd (flet_send_file now peer files file_path plan0))) = [])"
  using send_file_ok [of files file_path d plan0 now cb peer]
        flet_send_file_ok [of files file_path d plan0 now peer]
  by blast

theorem send_file_transmits_witness:
  "[''/srv/f.txt'' \<mapsto> ''hello''] ''/srv/f.txt'' = Some ''hello'' \<and>
   no_send_fail [Accept 3, Accept 100] \<and>
   accepts (max BUFFER_SIZE (length (header_line (basename ''/srv/f.txt'') (int (length ''hello'')))))
     [Accept 4096, Accept 8192] \<and>
   fst (send_file ''T'' True ''10.0.0.9:4000'' [''/srv/f.txt'' \<mapsto> ''hello''] ''/srv/f.txt''
          [Accept 3, Accept 100]) = True \<and>
   wire (snd (snd (send_file ''T'' True ''10.0.0.9:4000'' [''/srv/f.txt'' \<mapsto> ''hello'']
          ''/srv/f.txt'' [Accept 3, Accept 100])))
     = ''f.txt|5'' @ [NL] @ ''hello'' \<and>
   progress_calls (snd (snd (send_file ''T'' True ''10.0.0.9:4000'' [''/srv/f.txt'' \<mapsto> ''hello'']
          ''/srv/f.txt'' [Accept 3, Accept 100])))
     = [Percent 5 5] \<and>
   fst (flet_send_file ''T'' ''10.0.0.9:4000'' [''/srv/f.txt'' \<mapsto> ''hello''] ''/srv/f.txt''
          [Accept 4096, Accept 8192])
     = True \<and>
   wire (snd (snd (flet_send_file ''T'' ''10.0.0.9:4000'' [''/srv/f.txt'' \<mapsto> ''hello'']
          ''/srv/f.txt''
          [Accept 4096, Accept 8192])))
     = ''f.txt|5'' @ [NL] @ ''hello''"
proof -
  have hl: "header_line (basename ''/srv/f.txt'') (int (length ''hello'')) = ''f.txt|5'' @ [NL]"
    by code_simp
  have 1: "[''/srv/f.txt'' \<mapsto> ''hello''] ''/srv/f.txt'' = Some ''hello''" by simp
  have 2: "no_send_fail [Accept 3, Accept 100]" by simp
  have 3: "accepts (max BUFFER_SIZE (length (header_line (basename ''/srv/f.txt'') (int (length ''hello'')))))
     [Accept 4096, Accept 8192]"
    unfolding hl by (simp add: BUFFER_SIZE_def)
  have pm: "progress_marks 0 (length ''hello'') = [5]"
    by (simp add: progress_marks.simps BUFFER_SIZE_def)
  note a = send_file_transmits
      [of "[''/srv/f.txt'' \<mapsto> ''hello'']" "''/srv/f.txt''" "''hello''" "[Accept 3, Accept 100]"
          "''T''" True "''10.0.0.9:4000''"]
  note b = send_file_transmits
      [of "[''/srv/f.txt'' \<mapsto> ''hello'']" "''/srv/f.txt''" "''hello''" "[Accept 4096, Accept 8192]"
          "''T''" True "''10.0.0.9:4000''"]
  from a 1 2 have a': "fst (send_file ''T'' True ''10.0.0.9:4000'' [''/srv/f.txt'' \<mapsto> ''hello''] ''/srv/f.txt''
          [Accept 3, Accept 100]) = True \<and>
     wire (snd (snd (send_file ''T'' True ''10.0.0.9:4000'' [''/srv/f.txt'' \<mapsto> ''hello'']
          ''/srv/f.txt'' [Accept 3, Accept 100])))
       = header_line (basename ''/srv/f.txt'') (int (length ''hello'')) @ ''hello'' \<and>
     progress_calls (snd (snd (send_file ''T'' True ''10.0.0.9:4000'' [''/srv/f.txt'' \<mapsto> ''hello'']
          ''/srv/f.txt'' [Accept 3, Accept 100])))
       = map (\<lambda>k. Percent k (int (length ''hello''))) (progress_marks 0 (length ''hello''))"
    by (simp only: if_True)
  from b 1 3 have b': "fst (flet_send_file ''T'' ''10.0.0.9:4000'' [''/srv/f.txt'' \<mapsto> ''hello''] ''/srv/f.txt''
          [Accept 4096, Accept 8192])
       = True \<and>
     wire (snd (snd (flet_send_file ''T'' ''10.0.0.9:4000'' [''/srv/f.txt'' \<mapsto> ''hello'']
          ''/srv/f.txt''
          [Accept 4096, Accept 8192])))
       = header_line (basename ''/srv/f.txt'') (int (length ''hello'')) @ ''hello''"
    by blast
  from a' b' 1 2 3 show ?thesis
    unfolding hl pm by simp
qed

text \<open>
  The value returned for a file of 5 bytes is \<open>True\<close>, which as a number is 1, while
  5 bytes were sent.
\<close>

theorem send_file_transmits_counterexample:
  "fst (send_file ''T'' True ''10.0.0.9:4000'' [''/srv/f.txt'' \<mapsto> ''hello''] ''/srv/f.txt'' [])
     = True \<and>
   sent_bytes (snd (snd (send_file ''T'' True ''10.0.0.9:4000'' [''/srv/f.txt'' \<mapsto> ''hello'']
      ''/srv/f.txt'' []))) = 5 \<and>
   (of_bool (fst (send_file ''T'' True ''10.0.0.9:4000'' [''/srv/f.txt'' \<mapsto> ''hello'']
      ''/srv/f.txt'' [])) :: nat)
     \<noteq> sent_bytes (snd (snd (send_file ''T'' True ''10.0.0.9:4000'' [''/srv/f.txt'' \<mapsto> ''hello'']
      ''/srv/f.txt'' [])))"
proof -
  have 1: "[''/srv/f.txt'' \<mapsto> ''hello''] ''/srv/f.txt'' = Some ''hello''" by simp
  have 2: "no_send_fail []" by simp
  from send_file_ok [of "[''/srv/f.txt'' \<mapsto> ''hello'']" "''/srv/f.txt''" "''hello''" "[]"
                      "''T''" True "''10.0.0.9:4000''"] 1 2
  have "fst (send_file ''T'' True ''10.0.0.9:4000'' [''/srv/f.txt'' \<mapsto> ''hello''] ''/srv/f.txt'' [])
          = True"
    and "sent_bytes (snd (snd (send_file ''T'' True ''10.0.0.9:4000'' [''/srv/f.txt'' \<mapsto> ''hello'']
           ''/srv/f.txt'' []))) = length ''hello''"
    by blast+
  then show ?thesis by simp
qed

end
